theory Spec2Isabelle
  imports Main "HOL-Library.Sublist"
begin

section \<open>Strings, exceptions and the shell\<close>

text \<open>
  JavaScript strings are modelled as \<^typ>\<open>string\<close>: one \<^typ>\<open>char\<close> per code unit,
  restricted to code units below 256. A rejected promise or a thrown exception is the left
  injection of a sum, carrying the \<open>message\<close> of the error object; a fulfilled promise is
  the right injection.

  \<open>execAsync\<close> (the promisified \<open>child_process.exec\<close>) is the only access the fastboot
  manager has to the outside world. It is taken as a parameter: a command line is mapped
  either to an error message or to the two output channels of the finished process.
\<close>

record exec_output =
  stdout :: string
  stderr :: string

type_synonym shell = "string \<Rightarrow> string + exec_output"

record FastbootCommandResult =
  success :: bool
  output' :: string
  error :: "string option"

text \<open>
  \<open>const devicePrefix = deviceId ? `-s ${deviceId}` : ''\<close>. The optional parameter is
  \<open>None\<close> when it is \<open>undefined\<close>; the empty string is falsy as well.
\<close>

definition devicePrefixOf :: "string option \<Rightarrow> string" where
  "devicePrefixOf deviceId =
     (case deviceId of
        None \<Rightarrow> ''''
      | Some d \<Rightarrow> if d = '''' then '''' else ''-s '' @ d)"

text \<open>
  \<open>const fullCommand = devicePrefix ? `fastboot ${devicePrefix} ${command}`
                                     : `fastboot ${command}`\<close>
\<close>

definition fullCommand :: "string \<Rightarrow> string option \<Rightarrow> string" where
  "fullCommand command deviceId =
     (let devicePrefix = devicePrefixOf deviceId
      in if devicePrefix \<noteq> '''' then ''fastboot '' @ devicePrefix @ '' '' @ command
         else ''fastboot '' @ command)"

text \<open>
  \<open>FastbootManager.executeCommand\<close>: the whole body sits in a \<open>try\<close> block whose
  \<open>catch\<close> builds a result from \<open>error.message\<close>. The model returns a sum so that an
  exception escaping to the caller would be visible as \<open>Inl\<close>.
\<close>

definition executeCommand :: "shell \<Rightarrow> string \<Rightarrow> string option \<Rightarrow> string + FastbootCommandResult" where
  "executeCommand execAsync command deviceId =
     (case execAsync (fullCommand command deviceId) of
        Inr io \<Rightarrow> Inr \<lparr>success = True, output' = stdout io @ stderr io, error = None\<rparr>
      | Inl msg \<Rightarrow> Inr \<lparr>success = False, output' = '''', error = Some msg\<rparr>)"

section \<open>String operations of the host language\<close>

text \<open>
  \<open>\s\<close> in a regular expression and \<open>String.prototype.trim\<close> use the same set of
  characters: white space and line terminators. Below code unit 256 these are TAB, LF, VT,
  FF, CR, SPACE and NBSP. The dot of a regular expression matches everything except a line
  terminator (LF and CR below 256).
\<close>

definition isWhiteSpace :: "char \<Rightarrow> bool" where
  "isWhiteSpace c \<longleftrightarrow> c \<in> set [CHR 0x09, CHR 0x0A, CHR 0x0B, CHR 0x0C, CHR 0x0D, CHR 0x20, CHR 0xA0]"

definition isLineTerminator :: "char \<Rightarrow> bool" where
  "isLineTerminator c \<longleftrightarrow> c = CHR 0x0A \<or> c = CHR 0x0D"

definition trim :: "string \<Rightarrow> string" where
  "trim s = rev (dropWhile isWhiteSpace (rev (dropWhile isWhiteSpace s)))"

text \<open>\<open>s.includes(sub)\<close>: \<open>sub\<close> occurs in \<open>s\<close> as a contiguous run.\<close>

fun includesStr :: "string \<Rightarrow> string \<Rightarrow> bool" where
  "includesStr [] sub = (sub = [])"
| "includesStr (c # cs) sub = (prefix sub (c # cs) \<or> includesStr cs sub)"

text \<open>
  \<open>s.split(sep)\<close> for a one-character separator. The result is never empty:
  splitting the empty string gives one empty field.
\<close>

fun split :: "char \<Rightarrow> string \<Rightarrow> string list" where
  "split sep [] = [[]]"
| "split sep (c # cs) =
     (if c = sep then [] # split sep cs
      else (case split sep cs of
              [] \<Rightarrow> [[c]]
            | f # fs \<Rightarrow> (c # f) # fs))"

section \<open>FastbootManager: device list and bootloader variables\<close>

text \<open>
  \<open>getConnectedDevices\<close>: the lines of \<open>fastboot devices\<close> whose trimmed text is not
  empty and that contain \<open>fastboot\<close>, cut at the first TAB, empty ids dropped. Any
  failure of the process is caught and gives the empty list. \<open>split\<close> never returns the
  empty array, so the \<open>[]\<close> branch of the index \<open>[0]\<close> is not reached; there the source
  reads \<open>undefined\<close>, which the last filter drops like the empty string.
\<close>

definition getConnectedDevices :: "shell \<Rightarrow> string list" where
  "getConnectedDevices execAsync =
     (case execAsync ''fastboot devices'' of
        Inl msg \<Rightarrow> []
      | Inr io \<Rightarrow>
          (let lines = split (CHR 0x0A) (stdout io);
               devices =
                 filter (\<lambda>devId. devId \<noteq> '''')
                   (map (\<lambda>line. case split (CHR 0x09) line of [] \<Rightarrow> '''' | devId # rest \<Rightarrow> devId)
                     (filter (\<lambda>line. trim line \<noteq> '''' \<and> includesStr line ''fastboot'') lines))
           in devices))"

text \<open>
  The regular expression of \<open>getVariable\<close> is built from the template
  \<^verbatim>\<open>${variable}:\\s*(.+)\<close>. The variable name is pasted into the pattern source,
  so the name is read as a pattern itself. \<open>compileName\<close> reads a dot in the name as
  the pattern dot, which matches any one character but a line terminator, and every other
  character as itself. That is what the name means as long as it holds none of the other
  pattern metacharacters (the backslash and \<open>^ $ * + ? ( ) [ ] { } |\<close>); a name that
  holds one of those is outside the model. \<open>regexLiteral\<close> holds of a name made of
  letters, digits, \<open>-\<close>, \<open>_\<close> and \<open>:\<close>, which all stand for themselves; every call
  site passes such a constant. \<open>matchAtoms\<close> matches the compiled name at the start of a
  text and returns what follows it.

  \<open>dotPlus\<close> is the capture group \<open>(.+)\<close> at the end of the pattern: greedy, at least one
  character, none of them a line terminator. \<open>wsStarDotPlus\<close> is \<open>\s*(.+)\<close> with the
  backtracking of the host's matcher: the star first takes a white space character and
  tries the rest; when the rest fails it gives the character back and lets the group start
  there. \<open>matchAt\<close> is the whole pattern tried at one start position: the compiled
  name, a colon, then \<open>\s*(.+)\<close>.
  \<open>regexMatch\<close> is \<open>String.prototype.match\<close> for a pattern without the global flag,
  given the pattern as its matcher at one position: the leftmost start position that
  matches wins, and the value is the first group.
\<close>

definition isWordChar :: "char \<Rightarrow> bool" where
  "isWordChar c \<longleftrightarrow>
     (let n = (of_char c :: nat)
      in (48 \<le> n \<and> n \<le> 57) \<or> (65 \<le> n \<and> n \<le> 90) \<or> (97 \<le> n \<and> n \<le> 122) \<or> c = CHR ''_'')"

definition regexLiteral :: "string \<Rightarrow> bool" where
  "regexLiteral variable \<longleftrightarrow>
     list_all (\<lambda>c. isWordChar c \<or> c = CHR ''-'' \<or> c = CHR '':'') variable"

definition dotPlus :: "string \<Rightarrow> string option" where
  "dotPlus s =
     (case takeWhile (\<lambda>c. \<not> isLineTerminator c) s of
        [] \<Rightarrow> None
      | c # cs \<Rightarrow> Some (c # cs))"

fun wsStarDotPlus :: "string \<Rightarrow> string option" where
  "wsStarDotPlus [] = dotPlus []"
| "wsStarDotPlus (c # cs) =
     (if isWhiteSpace c
      then (case wsStarDotPlus cs of
              Some g \<Rightarrow> Some g
            | None \<Rightarrow> dotPlus (c # cs))
      else dotPlus (c # cs))"

datatype atom = Lit char | AnyChar

fun atomMatches :: "atom \<Rightarrow> char \<Rightarrow> bool" where
  "atomMatches (Lit x) c = (c = x)"
| "atomMatches AnyChar c = (\<not> isLineTerminator c)"

definition compileName :: "string \<Rightarrow> atom list" where
  "compileName variable = map (\<lambda>c. if c = CHR ''.'' then AnyChar else Lit c) variable"

fun matchAtoms :: "atom list \<Rightarrow> string \<Rightarrow> string option" where
  "matchAtoms [] s = Some s"
| "matchAtoms (a # atoms) [] = None"
| "matchAtoms (a # atoms) (c # cs) = (if atomMatches a c then matchAtoms atoms cs else None)"

definition matchAt :: "string \<Rightarrow> string \<Rightarrow> string option" where
  "matchAt variable s =
     (case matchAtoms (compileName variable) s of
        None \<Rightarrow> None
      | Some rest \<Rightarrow>
          (case rest of
             [] \<Rightarrow> None
           | c # cs \<Rightarrow> if c = CHR '':'' then wsStarDotPlus cs else None))"

fun regexMatch :: "(string \<Rightarrow> string option) \<Rightarrow> string \<Rightarrow> string option" where
  "regexMatch matchHere [] = matchHere []"
| "regexMatch matchHere (c # cs) =
     (case matchHere (c # cs) of
        Some g \<Rightarrow> Some g
      | None \<Rightarrow> regexMatch matchHere cs)"

text \<open>
  \<open>getVariable\<close>: \<open>null\<close> is \<open>None\<close>. The \<open>catch\<close> turns every failure of the process
  into \<open>null\<close>.
\<close>

definition getVariable :: "shell \<Rightarrow> string \<Rightarrow> string \<Rightarrow> string option" where
  "getVariable execAsync variable devicePrefix =
     (let command = (if devicePrefix \<noteq> ''''
                     then ''fastboot '' @ devicePrefix @ '' getvar '' @ variable
                     else ''fastboot getvar '' @ variable)
      in case execAsync command of
           Inl msg \<Rightarrow> None
         | Inr io \<Rightarrow>
             (let combined = stdout io @ stderr io
              in case regexMatch (matchAt variable) combined of
                   Some g \<Rightarrow> Some (trim g)
                 | None \<Rightarrow> None))"

record BootloaderInfo =
  version :: string
  variant :: string
  locked :: bool
  secureboot :: bool
  serialNumber :: string

text \<open>\<open>value || 'Unknown'\<close>: \<open>null\<close> and the empty string are falsy.\<close>

definition orUnknown :: "string option \<Rightarrow> string" where
  "orUnknown v = (case v of None \<Rightarrow> ''Unknown'' | Some s \<Rightarrow> if s = '''' then ''Unknown'' else s)"

text \<open>
  \<open>getBootloaderInfo\<close>. The constant \<open>targetDevice = deviceId || devices[0]\<close> of the
  source is never read and is left out. The five variables are queried with the prefix
  built from the \<open>deviceId\<close> argument alone. The result is a sum so that an exception
  reaching the caller would show as \<open>Inl\<close>; \<open>null\<close> is \<open>Inr None\<close>.
\<close>

definition getBootloaderInfo :: "shell \<Rightarrow> string option \<Rightarrow> string + BootloaderInfo option" where
  "getBootloaderInfo execAsync deviceId =
     (let devices = getConnectedDevices execAsync
      in if length devices = 0 then Inr None
         else
           (let devicePrefix = devicePrefixOf deviceId;
                version = getVariable execAsync ''version-bootloader'' devicePrefix;
                variant = getVariable execAsync ''variant'' devicePrefix;
                locked = getVariable execAsync ''unlocked'' devicePrefix;
                secureboot = getVariable execAsync ''secure'' devicePrefix;
                serialNumber = getVariable execAsync ''serialno'' devicePrefix
            in Inr (Some \<lparr>version = orUnknown version,
                          variant = orUnknown variant,
                          locked = (locked \<noteq> Some ''yes''),
                          secureboot = (secureboot = Some ''yes''),
                          serialNumber = orUnknown serialNumber\<rparr>)))"

section \<open>FastbootManager: partition operations\<close>

text \<open>
  Each operation is one template literal handed to \<open>executeCommand\<close>. The double quote
  around the image path is \<^term>\<open>CHR 0x22\<close>. A parameter with a default value
  (\<open>filesystem = 'ext4'\<close>, \<open>mode = 'system'\<close>) is an option: the default applies when
  the argument is \<open>undefined\<close>. The type of \<open>mode\<close> is erased at run time and the route
  passes whatever the request holds (\<open>mode as any\<close>), so it is a string here.
\<close>

definition flashPartition :: "shell \<Rightarrow> string \<Rightarrow> string \<Rightarrow> string option \<Rightarrow> string + FastbootCommandResult" where
  "flashPartition execAsync partitionName imagePath deviceId =
     executeCommand execAsync (''flash '' @ partitionName @ '' '' @ [CHR 0x22] @ imagePath @ [CHR 0x22]) deviceId"

definition erasePartition :: "shell \<Rightarrow> string \<Rightarrow> string option \<Rightarrow> string + FastbootCommandResult" where
  "erasePartition execAsync partitionName deviceId =
     executeCommand execAsync (''erase '' @ partitionName) deviceId"

definition formatPartition :: "shell \<Rightarrow> string \<Rightarrow> string option \<Rightarrow> string option \<Rightarrow> string + FastbootCommandResult" where
  "formatPartition execAsync partitionName filesystem deviceId =
     (let fs = (case filesystem of None \<Rightarrow> ''ext4'' | Some f \<Rightarrow> f)
      in executeCommand execAsync (''format:'' @ fs @ '' '' @ partitionName) deviceId)"

definition rebootDevice :: "shell \<Rightarrow> string option \<Rightarrow> string option \<Rightarrow> string + FastbootCommandResult" where
  "rebootDevice execAsync mode deviceId =
     (let m = (case mode of None \<Rightarrow> ''system'' | Some m \<Rightarrow> m);
          rebootCommand = (if m = ''system'' then ''reboot'' else ''reboot-'' @ m)
      in executeCommand execAsync rebootCommand deviceId)"

text \<open>
  The pattern of \<open>getPartitionInfo\<close> is \<open>/partition-type:\w+:\s*(.+)/\<close>. After
  \<open>\w+\<close> the pattern wants a colon, which is not a word character: of all the lengths
  the plus can backtrack to, only the longest run of word characters can be followed by
  the colon. A word character is a letter, a digit or the underscore (\<open>isWordChar\<close>).
\<close>

definition matchPartitionTypeAt :: "string \<Rightarrow> string option" where
  "matchPartitionTypeAt s =
     (if prefix ''partition-type:'' s
      then (let rest = drop (length ''partition-type:'') s;
                word = takeWhile isWordChar rest
            in if word = [] then None
               else (case dropWhile isWordChar rest of
                       [] \<Rightarrow> None
                     | c # cs \<Rightarrow> if c = CHR '':'' then wsStarDotPlus cs else None))
      else None)"

definition getPartitionInfo :: "shell \<Rightarrow> string \<Rightarrow> string option \<Rightarrow> string + string option" where
  "getPartitionInfo execAsync partitionName deviceId =
     (case executeCommand execAsync (''getvar partition-type:'' @ partitionName) deviceId of
        Inl msg \<Rightarrow> Inr None
      | Inr result \<Rightarrow>
          if success result
          then (case regexMatch matchPartitionTypeAt (output' result) of
                  Some g \<Rightarrow> Inr (Some (trim g))
                | None \<Rightarrow> Inr None)
          else Inr None)"

text \<open>
  \<open>validateImage\<close> reads the file system: \<open>fileSize\<close> gives the size of the file at a
  path, or nothing when \<open>access\<close> or \<open>stat\<close> fails.
\<close>

definition validateImage :: "(string \<Rightarrow> nat option) \<Rightarrow> string \<Rightarrow> bool" where
  "validateImage fileSize imagePath =
     (case fileSize imagePath of None \<Rightarrow> False | Some n \<Rightarrow> n > 0)"

section \<open>The fastboot route: partition actions\<close>

text \<open>
  The \<open>POST\<close> handler of the fastboot route, for the actions that reach a partition
  operation. The fields of the JSON body are optional strings; \<open>!field\<close> holds for a
  missing field and for the empty string. The other cases of the \<open>switch\<close> are not
  modelled. A response is a status with its JSON payload.
\<close>

datatype partition_action = FlashPartition | ErasePartition | FormatPartition | Reboot | GetPartitionInfo

record request_body =
  body_deviceId :: "string option"
  body_partition :: "string option"
  body_imagePath :: "string option"
  body_erasePartition :: "string option"
  body_formatPartition :: "string option"
  body_filesystem :: "string option"
  body_mode :: "string option"
  body_infoPartition :: "string option"

datatype route_response =
    BadRequest string
  | CommandJson FastbootCommandResult
  | PartitionInfoJson "string option"
  | ServerError string

definition falsy :: "string option \<Rightarrow> bool" where
  "falsy v \<longleftrightarrow> (case v of None \<Rightarrow> True | Some s \<Rightarrow> s = '''')"

definition orDefault :: "string option \<Rightarrow> string \<Rightarrow> string" where
  "orDefault v d = (case v of None \<Rightarrow> d | Some s \<Rightarrow> if s = '''' then d else s)"

definition commandResponse :: "string + FastbootCommandResult \<Rightarrow> route_response" where
  "commandResponse r = (case r of Inl msg \<Rightarrow> ServerError msg | Inr result \<Rightarrow> CommandJson result)"

definition fastbootPost :: "shell \<Rightarrow> (string \<Rightarrow> nat option) \<Rightarrow> partition_action \<Rightarrow> request_body \<Rightarrow> route_response" where
  "fastbootPost execAsync fileSize action body =
     (let deviceId = body_deviceId body
      in case action of
           FlashPartition \<Rightarrow>
             if falsy (body_partition body) \<or> falsy (body_imagePath body)
             then BadRequest ''Partition and image path are required''
             else if \<not> validateImage fileSize (orDefault (body_imagePath body) '''')
             then BadRequest ''Invalid or missing image file''
             else commandResponse
                    (flashPartition execAsync (orDefault (body_partition body) '''')
                       (orDefault (body_imagePath body) '''') deviceId)
         | ErasePartition \<Rightarrow>
             if falsy (body_erasePartition body)
             then BadRequest ''Partition name is required''
             else commandResponse
                    (erasePartition execAsync (orDefault (body_erasePartition body) '''') deviceId)
         | FormatPartition \<Rightarrow>
             if falsy (body_formatPartition body)
             then BadRequest ''Partition name is required''
             else commandResponse
                    (formatPartition execAsync (orDefault (body_formatPartition body) '''')
                       (Some (orDefault (body_filesystem body) ''ext4'')) deviceId)
         | Reboot \<Rightarrow>
             commandResponse
               (rebootDevice execAsync (Some (orDefault (body_mode body) ''system'')) deviceId)
         | GetPartitionInfo \<Rightarrow>
             if falsy (body_infoPartition body)
             then BadRequest ''Partition name is required''
             else (case getPartitionInfo execAsync (orDefault (body_infoPartition body) '''') deviceId of
                     Inl msg \<Rightarrow> ServerError msg
                   | Inr info \<Rightarrow> PartitionInfoJson info))"

section \<open>FastbootManager: waiting for a device\<close>

text \<open>
  \<open>waitForDevice\<close> reads the clock and sleeps, so time is explicit. \<open>shellAt t\<close> is
  what the shell answers to a command started at time \<open>t\<close> (milliseconds);
  \<open>pollCost\<close> is how long one \<open>getConnectedDevices\<close> takes; the timer sleeps 1000.
  The loop condition is evaluated at \<open>now\<close>; its first evaluation reads the clock value
  that \<open>startTime\<close> was given. The result records the value returned, the times at which
  the device list was queried, and the time of the return.
\<close>

record wait_result =
  returned :: bool
  pollTimes :: "int list"
  returnTime :: int

function waitLoop :: "(int \<Rightarrow> shell) \<Rightarrow> nat \<Rightarrow> int \<Rightarrow> int \<Rightarrow> int \<Rightarrow> int list \<Rightarrow> wait_result" where
  "waitLoop shellAt pollCost startTime timeout now polls =
     (if now - startTime < timeout
      then (let devices = getConnectedDevices (shellAt now)
            in if length devices > 0
               then \<lparr>returned = True, pollTimes = polls @ [now], returnTime = now + int pollCost\<rparr>
               else waitLoop shellAt pollCost startTime timeout (now + int pollCost + 1000) (polls @ [now]))
      else \<lparr>returned = False, pollTimes = polls, returnTime = now\<rparr>)"
  by pat_completeness auto
termination
  by (relation "measure (\<lambda>(shellAt, pollCost, startTime, timeout, now, polls). nat (timeout - (now - startTime)))") auto

definition waitForDevice :: "(int \<Rightarrow> shell) \<Rightarrow> nat \<Rightarrow> int \<Rightarrow> int \<Rightarrow> wait_result" where
  "waitForDevice shellAt pollCost startTime timeout =
     waitLoop shellAt pollCost startTime timeout startTime []"

section \<open>The radio flash route: streaming a flash session\<close>

text \<open>
  The \<open>flash\<close> action of the radio route streams one event per progress callback and
  then one final event built by the handler. \<open>radioFirmwareManager.flashRadioFirmware\<close>
  is outside this development: one run of it is the list of progress objects it handed to
  the callback, in order, and how it ended (a boolean, or an exception with its message).
  An event is the JSON object written to the stream; a field the object does not have is
  \<open>None\<close>.
\<close>

record StreamEvent =
  eventStage :: string
  eventProgress :: int
  eventMessage :: string
  eventSuccess :: "bool option"
  eventError :: "string option"

record flash_run =
  emitted :: "StreamEvent list"
  ended :: "string + bool"

definition flashStream :: "flash_run \<Rightarrow> StreamEvent list" where
  "flashStream run =
     emitted run @
     [case ended run of
        Inr ok \<Rightarrow>
          \<lparr>eventStage = (if ok then ''complete'' else ''error''),
           eventProgress = (if ok then 100 else 0),
           eventMessage = (if ok then ''Radio firmware flashed successfully!'' else ''Flash operation failed''),
           eventSuccess = Some ok,
           eventError = None\<rparr>
      | Inl msg \<Rightarrow>
          \<lparr>eventStage = ''error'',
           eventProgress = 0,
           eventMessage = ''Flash operation failed'',
           eventSuccess = Some False,
           eventError = Some msg\<rparr>]"

datatype flash_response = FlashBadRequest string | EventStream "StreamEvent list"

definition postFlash :: "(string \<Rightarrow> string option \<Rightarrow> flash_run) \<Rightarrow> string option \<Rightarrow> string option \<Rightarrow> flash_response" where
  "postFlash flashRadioFirmware firmwarePath deviceId =
     (if falsy firmwarePath then FlashBadRequest ''Firmware path is required''
      else EventStream (flashStream (flashRadioFirmware (orDefault firmwarePath '''') deviceId)))"

section \<open>The radio search route: sorting by version\<close>

text \<open>
  \<open>String.prototype.localeCompare\<close> belongs to the host, not to the repository: the
  comparator takes it as a parameter, a function from two strings to a number.

  \<open>versionCollation\<close> says what the default collation of the host answers on version
  strings, and only there. On strings of ASCII digits, ASCII letters and the dot it
  compares first the primary weights from left to right, where the dot sorts before every
  digit, the digits before every letter, and a letter has the weight of its lower case
  form; strings with equal primary weights are then compared by case from left to right,
  lower case first. A proper prefix sorts before the longer string. The result is
  \<open>-1\<close>, \<open>0\<close> or \<open>1\<close>. A character outside this alphabet has no weight, and a
  string that holds one has no answer. \<open>sortsBefore c d\<close> says that both characters
  have a primary weight and that the one of \<open>c\<close> is smaller. \<open>twoLevel\<close> compares two
  strings given by their primary and case weights. \<open>hostCollation\<close> holds of a
  comparison function that gives the answer of \<open>versionCollation\<close> wherever there is one.
\<close>

definition primaryWeight :: "char \<Rightarrow> nat option" where
  "primaryWeight c =
     (let n = (of_char c :: nat)
      in if c = CHR ''.'' then Some 0
         else if 48 \<le> n \<and> n \<le> 57 then Some (1 + (n - 48))
         else if 97 \<le> n \<and> n \<le> 122 then Some (11 + (n - 97))
         else if 65 \<le> n \<and> n \<le> 90 then Some (11 + (n - 65))
         else None)"

definition versionAlphabet :: "string \<Rightarrow> bool" where
  "versionAlphabet s \<longleftrightarrow> list_all (\<lambda>c. primaryWeight c \<noteq> None) s"

definition sortsBefore :: "char \<Rightarrow> char \<Rightarrow> bool" where
  "sortsBefore c d \<longleftrightarrow>
     (case (primaryWeight c, primaryWeight d) of
        (Some wc, Some wd) \<Rightarrow> wc < wd
      | _ \<Rightarrow> False)"

definition isUpperCase :: "char \<Rightarrow> bool" where
  "isUpperCase c \<longleftrightarrow> (let n = (of_char c :: nat) in 65 \<le> n \<and> n \<le> 90)"

definition tertiaryWeight :: "char \<Rightarrow> nat" where
  "tertiaryWeight c = (if isUpperCase c then 1 else 0)"

fun lexCompare :: "nat list \<Rightarrow> nat list \<Rightarrow> int" where
  "lexCompare [] [] = 0"
| "lexCompare [] (y # ys) = -1"
| "lexCompare (x # xs) [] = 1"
| "lexCompare (x # xs) (y # ys) = (if x < y then -1 else if y < x then 1 else lexCompare xs ys)"

definition twoLevel :: "nat list \<Rightarrow> nat list \<Rightarrow> nat list \<Rightarrow> nat list \<Rightarrow> int" where
  "twoLevel ka ta kb tb = (let p = lexCompare ka kb in if p \<noteq> 0 then p else lexCompare ta tb)"

definition versionCollation :: "string \<Rightarrow> string \<Rightarrow> int option" where
  "versionCollation a b =
     (case (those (map primaryWeight a), those (map primaryWeight b)) of
        (Some ka, Some kb) \<Rightarrow> Some (twoLevel ka (map tertiaryWeight a) kb (map tertiaryWeight b))
      | _ \<Rightarrow> None)"

definition hostCollation :: "(string \<Rightarrow> string \<Rightarrow> int) \<Rightarrow> bool" where
  "hostCollation localeCompare \<longleftrightarrow>
     (\<forall>a b r. versionCollation a b = Some r \<longrightarrow> localeCompare a b = r)"

text \<open>
  A firmware record, with the fields the comparator reads. \<open>getTime\<close> is
  \<open>new Date(buildDate).getTime()\<close>: a number of milliseconds, or \<open>NaN\<close> (here
  \<open>None\<close>) for a date that does not parse. A comparator that returns \<open>NaN\<close> counts as
  returning zero.
\<close>

record RadioFirmware =
  fwVersion :: string
  buildDate :: string
  fwSize :: int

definition sortComparator :: "(string \<Rightarrow> string \<Rightarrow> int) \<Rightarrow> (string \<Rightarrow> int option) \<Rightarrow> string \<Rightarrow> RadioFirmware \<Rightarrow> RadioFirmware \<Rightarrow> int" where
  "sortComparator localeCompare getTime sortBy a b =
     (if sortBy = ''version'' then localeCompare (fwVersion b) (fwVersion a)
      else if sortBy = ''date'' then
        (case (getTime (buildDate b), getTime (buildDate a)) of
           (Some tb, Some ta) \<Rightarrow> tb - ta
         | _ \<Rightarrow> 0)
      else if sortBy = ''size'' then fwSize b - fwSize a
      else 0)"

text \<open>
  \<open>Array.prototype.sort\<close> is stable; for a comparator that is a consistent ordering its
  result is the one of a stable insertion sort. An element goes before the first later
  element that it does not compare greater than.
\<close>

fun insertBy :: "('a \<Rightarrow> 'a \<Rightarrow> int) \<Rightarrow> 'a \<Rightarrow> 'a list \<Rightarrow> 'a list" where
  "insertBy cmp x [] = [x]"
| "insertBy cmp x (y # ys) = (if cmp x y \<le> 0 then x # y # ys else y # insertBy cmp x ys)"

definition sortWith :: "('a \<Rightarrow> 'a \<Rightarrow> int) \<Rightarrow> 'a list \<Rightarrow> 'a list" where
  "sortWith cmp xs = foldr (insertBy cmp) xs []"

definition sortResults :: "(string \<Rightarrow> string \<Rightarrow> int) \<Rightarrow> (string \<Rightarrow> int option) \<Rightarrow> string option \<Rightarrow> RadioFirmware list \<Rightarrow> RadioFirmware list" where
  "sortResults localeCompare getTime sortBy filteredResults =
     (if falsy sortBy then filteredResults
      else sortWith (sortComparator localeCompare getTime (orDefault sortBy '''')) filteredResults)"

section \<open>The session registry of the flashing orchestrator\<close>

text \<open>
  Modelled from the spec: the session registry and the concurrency guard of the flashing
  orchestrator (\<open>radioFirmwareManager.flashRadioFirmware\<close>, in \<open>lib/radio-firmware\<close>)
  are missing from the code at hand; the route handler only calls it. The spec gives a session a
  device id, a stage, a progress percentage, a start time and an optional last error, with
  \<open>Complete\<close> and \<open>Failed\<close> terminal; the registry holds the sessions; a new flash
  request for a device with a non-terminal session is rejected with
  \<open>SessionAlreadyActive\<close>, neither queued nor merged; a session moves along the chain of
  stages, or to \<open>Failed\<close> from any non-terminal stage.
\<close>

datatype stage =
  Idle | Detecting | BackingUp | Downloading | Verifying | Flashing | Confirming | Complete | Failed

record FlashSession =
  sessionDeviceId :: string
  sessionStage :: stage
  progressPercent :: nat
  startedAt :: int
  lastError :: "string option"

datatype flash_error = SessionAlreadyActive

text \<open>Modelled from the spec: the terminal stages are \<open>Complete\<close> and \<open>Failed\<close>.\<close>

definition terminal :: "stage \<Rightarrow> bool" where
  "terminal st \<longleftrightarrow> st = Complete \<or> st = Failed"

text \<open>Modelled from the spec: the non-terminal sessions of a device id in the registry.\<close>

definition activeSessions :: "FlashSession list \<Rightarrow> string \<Rightarrow> FlashSession list" where
  "activeSessions registry d =
     filter (\<lambda>s. sessionDeviceId s = d \<and> \<not> terminal (sessionStage s)) registry"

text \<open>
  Modelled from the spec: a flash request is rejected, the registry unchanged, when the
  device id has a non-terminal session; otherwise a new session in stage \<open>Idle\<close> is
  added.
\<close>

definition startFlash :: "FlashSession list \<Rightarrow> string \<Rightarrow> int \<Rightarrow> (flash_error + unit) \<times> FlashSession list" where
  "startFlash registry d now =
     (if activeSessions registry d \<noteq> [] then (Inl SessionAlreadyActive, registry)
      else (Inr (),
            registry @ [\<lparr>sessionDeviceId = d, sessionStage = Idle, progressPercent = 0,
                         startedAt = now, lastError = None\<rparr>]))"

text \<open>Modelled from the spec: the chain of stages; a terminal stage stays.\<close>

fun nextStage :: "stage \<Rightarrow> stage" where
  "nextStage Idle = Detecting"
| "nextStage Detecting = BackingUp"
| "nextStage BackingUp = Downloading"
| "nextStage Downloading = Verifying"
| "nextStage Verifying = Flashing"
| "nextStage Flashing = Confirming"
| "nextStage Confirming = Complete"
| "nextStage Complete = Complete"
| "nextStage Failed = Failed"

text \<open>
  Modelled from the spec: the non-terminal session of a device id moves to its next stage,
  or to \<open>Failed\<close> with the error kept as its last error.
\<close>

definition advanceSession :: "FlashSession list \<Rightarrow> string \<Rightarrow> FlashSession list" where
  "advanceSession registry d =
     map (\<lambda>s. if sessionDeviceId s = d \<and> \<not> terminal (sessionStage s)
               then s\<lparr>sessionStage := nextStage (sessionStage s)\<rparr> else s) registry"

definition failSession :: "FlashSession list \<Rightarrow> string \<Rightarrow> string \<Rightarrow> FlashSession list" where
  "failSession registry d err =
     map (\<lambda>s. if sessionDeviceId s = d \<and> \<not> terminal (sessionStage s)
               then s\<lparr>sessionStage := Failed, lastError := Some err\<rparr> else s) registry"

text \<open>
  Modelled from the spec: what the orchestrator does to the registry, one operation at a
  time.
\<close>

datatype registry_op = Start string int | Advance string | Fail string string

fun applyOp :: "FlashSession list \<Rightarrow> registry_op \<Rightarrow> FlashSession list" where
  "applyOp registry (Start d now) = snd (startFlash registry d now)"
| "applyOp registry (Advance d) = advanceSession registry d"
| "applyOp registry (Fail d err) = failSession registry d err"

section \<open>Reading the pattern of a variable\<close>

text \<open>
  What the pattern \<open>name:\s*(.+)\<close> means for a name that stands for itself, stated
  without the matcher. \<open>valueFollows\<close>: a text starts with a run of white space and
  then a character that is not a line terminator. \<open>patternOccurs\<close>: somewhere the text
  has the name, a colon, and then a value follows. The name is compared character by
  character, so upper and lower case differ.
\<close>

definition valueFollows :: "string \<Rightarrow> bool" where
  "valueFollows rest \<longleftrightarrow>
     (\<exists>ws c post. rest = ws @ c # post \<and> list_all isWhiteSpace ws \<and> \<not> isLineTerminator c)"

definition patternOccurs :: "string \<Rightarrow> string \<Rightarrow> bool" where
  "patternOccurs variable s \<longleftrightarrow>
     (\<exists>pre rest. s = pre @ variable @ '':'' @ rest \<and> valueFollows rest)"

text \<open>
  \<open>capturedAfter\<close>: the text \<open>g\<close> is what \<open>\s*(.+)\<close> captures at the start of a
  text. The white space skipped is the longest run that is still followed by a character
  other than a line terminator; the captured text starts there and runs to the end of the
  line. \<open>capturedBy\<close>: the text \<open>g\<close> is what the first occurrence of the pattern
  captures, the first occurrence being the leftmost place where the name and a colon are
  followed by a value.
\<close>

definition capturedAfter :: "string \<Rightarrow> string \<Rightarrow> bool" where
  "capturedAfter rest g \<longleftrightarrow>
     (\<exists>ws post.
        rest = ws @ g @ post \<and>
        list_all isWhiteSpace ws \<and> g \<noteq> [] \<and> list_all (\<lambda>c. \<not> isLineTerminator c) g \<and>
        (case post of [] \<Rightarrow> True | c # cs \<Rightarrow> isLineTerminator c) \<and>
        (\<forall>ws' c' post'. rest = ws' @ c' # post' \<and> list_all isWhiteSpace ws' \<and>
           \<not> isLineTerminator c' \<longrightarrow> length ws' \<le> length ws))"

definition capturedBy :: "string \<Rightarrow> string \<Rightarrow> string \<Rightarrow> bool" where
  "capturedBy variable s g \<longleftrightarrow>
     (\<exists>pre rest.
        s = pre @ variable @ '':'' @ rest \<and> capturedAfter rest g \<and>
        (\<forall>pre' rest'. s = pre' @ variable @ '':'' @ rest' \<and> length pre' < length pre \<longrightarrow>
           \<not> valueFollows rest'))"

text \<open>
  \<open>literalAt\<close> decides, at one position of a text, whether the name taken literally, a
  colon and a value stand there, and gives the captured text.
\<close>

definition literalAt :: "string \<Rightarrow> string \<Rightarrow> string option" where
  "literalAt variable s =
     (if prefix (variable @ '':'') s
      then wsStarDotPlus (drop (length variable + 1) s)
      else None)"

section \<open>The result of a process\<close>

text \<open>
  The two result objects of \<open>executeCommand\<close>, as a function of how the process ended;
  used to state what an operation returns for the command line it runs.
\<close>

definition resultOf :: "string + exec_output \<Rightarrow> FastbootCommandResult" where
  "resultOf outcome =
     (case outcome of
        Inr io \<Rightarrow> \<lparr>success = True, output' = stdout io @ stderr io, error = None\<rparr>
      | Inl msg \<Rightarrow> \<lparr>success = False, output' = '''', error = Some msg\<rparr>)"

section \<open>Example hosts\<close>

text \<open>
  A host with two devices in bootloader mode. The device list is on the standard output;
  every \<open>getvar\<close> answers on the standard error, as fastboot does; two more commands
  succeed and everything else fails.
\<close>

definition twoDevices :: shell where
  "twoDevices command =
     (if command = ''fastboot devices''
      then Inr \<lparr>stdout = ''8f2a01'' @ [CHR 0x09] @ ''fastboot'' @ [CHR 0x0A] @
                          ''77c3d9'' @ [CHR 0x09] @ ''fastboot'' @ [CHR 0x0A],
                stderr = ''''\<rparr>
      else if prefix ''fastboot getvar '' command
      then Inr \<lparr>stdout = '''',
                stderr = ''unlocked: yes '' @ [CHR 0x0A] @ ''secure:'' @ [CHR 0x0A] @
                         ''Finished. Total time: 0.001s'' @ [CHR 0x0A]\<rparr>
      else if command = ''fastboot erase userdata''
      then Inr \<lparr>stdout = '''', stderr = ''OKAY''\<rparr>
      else if command = ''fastboot erase cache; reboot''
      then Inr \<lparr>stdout = '''', stderr = ''OKAY''\<rparr>
      else Inl ''Command failed'')"

text \<open>A host on which every fastboot command prints the line \<open>abc: 1\<close>.\<close>

definition oneLineReply :: shell where
  "oneLineReply command = Inr \<lparr>stdout = ''abc: 1'', stderr = ''''\<rparr>"

text \<open>A host on which the fastboot binary cannot be run.\<close>

definition noFastboot :: shell where
  "noFastboot command = Inl ''fastboot: not found''"

text \<open>A request body with no field set.\<close>

definition emptyBody :: request_body where
  "emptyBody =
     \<lparr>body_deviceId = None, body_partition = None, body_imagePath = None,
      body_erasePartition = None, body_formatPartition = None, body_filesystem = None,
      body_mode = None, body_infoPartition = None\<rparr>"


section \<open>Example sessions and records\<close>

text \<open>
  A flash session that reports sixty percent in its flashing stage and then ends with
  \<open>false\<close>.
\<close>

definition failsWhileFlashing :: flash_run where
  "failsWhileFlashing =
     \<lparr>emitted = [\<lparr>eventStage = ''flashing'', eventProgress = 60,
                   eventMessage = ''Flashing radio firmware'', eventSuccess = None,
                   eventError = None\<rparr>],
      ended = Inr False\<rparr>"

text \<open>
  A host whose comparison function answers as \<open>versionCollation\<close> on version strings,
  and zero on every other pair of strings.
\<close>

definition exampleCollation :: "string \<Rightarrow> string \<Rightarrow> int" where
  "exampleCollation a b = (case versionCollation a b of Some r \<Rightarrow> r | None \<Rightarrow> 0)"

text \<open>A firmware record with a given version, built and sized like every other.\<close>

definition firmwareWithVersion :: "string \<Rightarrow> RadioFirmware" where
  "firmwareWithVersion v = \<lparr>fwVersion = v, buildDate = ''2024-01-01'', fwSize = 50000000\<rparr>"

section \<open>Results\<close>

text \<open>
  C4. For every command and optional device id, \<open>executeCommand\<close> never throws to its
  caller. When the process succeeds the result has \<open>success = true\<close>, its output is the
  standard output followed by the standard error, and it has no error field. When the
  process fails the result has \<open>success = false\<close> and the failure message in the error
  field.
\<close>

theorem executeCommand_never_throws:
  "\<exists>r. executeCommand execAsync command deviceId = Inr r \<and>
       (case execAsync (fullCommand command deviceId) of
          Inr io \<Rightarrow> success r \<and> output' r = stdout io @ stderr io \<and> error r = None
        | Inl msg \<Rightarrow> \<not> success r \<and> error r = Some msg)"
  by (simp add: executeCommand_def split: sum.split)

subsection \<open>The matcher against the pattern\<close>

lemma dotPlus_Some:
  assumes "dotPlus s = Some g"
  shows "g \<noteq> [] \<and> list_all (\<lambda>c. \<not> isLineTerminator c) g \<and>
         (\<exists>post. s = g @ post \<and> (case post of [] \<Rightarrow> True | c # cs \<Rightarrow> isLineTerminator c))"
proof -
  let ?P = "\<lambda>c. \<not> isLineTerminator c"
  from assms have g: "g = takeWhile ?P s" and ne: "g \<noteq> []"
    by (auto simp: dotPlus_def split: list.splits)
  have "s = g @ dropWhile ?P s" by (simp add: g)
  moreover have "case dropWhile ?P s of [] \<Rightarrow> True | c # cs \<Rightarrow> isLineTerminator c"
  proof (cases "dropWhile ?P s")
    case Nil
    show ?thesis unfolding Nil by simp
  next
    case (Cons a as)
    then have "\<not> ?P (hd (dropWhile ?P s))" using hd_dropWhile[of ?P s] by simp
    then show ?thesis unfolding Cons by simp
  qed
  moreover have "list_all ?P g" unfolding g list_all_iff using set_takeWhileD by fastforce
  ultimately show ?thesis using ne by blast
qed

lemma dotPlus_line:
  assumes "g \<noteq> []" and "list_all (\<lambda>c. \<not> isLineTerminator c) g"
    and "case post of [] \<Rightarrow> True | c # cs \<Rightarrow> isLineTerminator c"
  shows "dotPlus (g @ post) = Some g"
proof -
  let ?P = "\<lambda>c. \<not> isLineTerminator c"
  have "takeWhile ?P (g @ post) = g @ takeWhile ?P post"
    using assms(2) by (simp add: list_all_iff takeWhile_append2)
  also have "takeWhile ?P post = []" using assms(3) by (cases post) auto
  finally have "takeWhile ?P (g @ post) = g" by simp
  then show ?thesis using assms(1) by (simp add: dotPlus_def split: list.split)
qed

lemma wsStarDotPlus_matches:
  "list_all isWhiteSpace ws \<Longrightarrow> \<not> isLineTerminator c \<Longrightarrow> wsStarDotPlus (ws @ c # post) \<noteq> None"
proof (induction ws)
  case Nil
  then show ?case by (auto simp: dotPlus_def split: option.splits)
next
  case (Cons w ws)
  then show ?case by (auto split: option.splits)
qed

lemma wsStarDotPlus_Some: "wsStarDotPlus s = Some g \<Longrightarrow> capturedAfter s g"
proof (induction s)
  case Nil
  then show ?case by (simp add: dotPlus_def)
next
  case (Cons c cs)
  show ?case
  proof (cases "isWhiteSpace c \<and> wsStarDotPlus cs \<noteq> None")
    case True
    with Cons.prems have "wsStarDotPlus cs = Some g" by auto
    from Cons.IH[OF this] obtain ws post where
      d: "cs = ws @ g @ post" and w: "list_all isWhiteSpace ws" and ne: "g \<noteq> []"
      and nl: "list_all (\<lambda>c. \<not> isLineTerminator c) g"
      and eol: "case post of [] \<Rightarrow> True | c # cs \<Rightarrow> isLineTerminator c"
      and longest: "\<forall>ws' c' post'. cs = ws' @ c' # post' \<and> list_all isWhiteSpace ws' \<and>
           \<not> isLineTerminator c' \<longrightarrow> length ws' \<le> length ws"
      unfolding capturedAfter_def by blast
    have longest': "length ws' \<le> length (c # ws)"
      if "c # cs = ws' @ c' # post' \<and> list_all isWhiteSpace ws' \<and> \<not> isLineTerminator c'"
      for ws' c' post'
    proof (cases ws')
      case Nil
      then show ?thesis by simp
    next
      case (Cons w ws'')
      with that have "cs = ws'' @ c' # post' \<and> list_all isWhiteSpace ws'' \<and> \<not> isLineTerminator c'"
        by simp
      with longest have "length ws'' \<le> length ws" by blast
      with Cons show ?thesis by simp
    qed
    have "c # cs = (c # ws) @ g @ post" "list_all isWhiteSpace (c # ws)"
      using d w True by simp_all
    with ne nl eol longest' show ?thesis unfolding capturedAfter_def by blast
  next
    case False
    with Cons.prems have dp: "dotPlus (c # cs) = Some g" by (auto split: if_splits option.splits)
    from dotPlus_Some[OF dp] obtain post where
      ne: "g \<noteq> []" and nl: "list_all (\<lambda>c. \<not> isLineTerminator c) g"
      and d: "c # cs = g @ post"
      and eol: "case post of [] \<Rightarrow> True | c # cs \<Rightarrow> isLineTerminator c" by blast
    have longest': "length ws' \<le> length ([]::string)"
      if "c # cs = ws' @ c' # post' \<and> list_all isWhiteSpace ws' \<and> \<not> isLineTerminator c'"
      for ws' c' post'
    proof (cases ws')
      case Nil
      then show ?thesis by simp
    next
      case (Cons w ws'')
      with that have c: "isWhiteSpace c" and r: "cs = ws'' @ c' # post'"
        and w: "list_all isWhiteSpace ws''" and n: "\<not> isLineTerminator c'" by simp_all
      from wsStarDotPlus_matches[OF w n] r have "wsStarDotPlus cs \<noteq> None" by simp
      with c False show ?thesis by simp
    qed
    have "c # cs = [] @ g @ post" "list_all isWhiteSpace []" using d by simp_all
    with ne nl eol longest' show ?thesis unfolding capturedAfter_def by blast
  qed
qed

lemma wsStarDotPlus_None: "wsStarDotPlus s = None \<longleftrightarrow> \<not> valueFollows s"
proof
  assume "wsStarDotPlus s = None"
  then show "\<not> valueFollows s"
    unfolding valueFollows_def using wsStarDotPlus_matches by blast
next
  assume n: "\<not> valueFollows s"
  show "wsStarDotPlus s = None"
  proof (rule ccontr)
    assume "wsStarDotPlus s \<noteq> None"
    then obtain g where "wsStarDotPlus s = Some g" by auto
    from wsStarDotPlus_Some[OF this] obtain ws post where
      s: "s = ws @ g @ post" and w: "list_all isWhiteSpace ws" and ne: "g \<noteq> []"
      and l: "list_all (\<lambda>c. \<not> isLineTerminator c) g"
      unfolding capturedAfter_def by blast
    from ne obtain c g' where g: "g = c # g'" by (cases g) auto
    with s l have "s = ws @ c # (g' @ post)" "\<not> isLineTerminator c" by auto
    with w n show False unfolding valueFollows_def by blast
  qed
qed

lemma wsStarDotPlus_complete:
  assumes "capturedAfter s g"
  shows "wsStarDotPlus s = Some g"
proof -
  from assms obtain ws post where
    d: "s = ws @ g @ post" and w: "list_all isWhiteSpace ws" and ne: "g \<noteq> []"
    and nl: "list_all (\<lambda>c. \<not> isLineTerminator c) g"
    and eol: "case post of [] \<Rightarrow> True | c # cs \<Rightarrow> isLineTerminator c"
    and longest: "\<forall>ws' c' post'. s = ws' @ c' # post' \<and> list_all isWhiteSpace ws' \<and>
         \<not> isLineTerminator c' \<longrightarrow> length ws' \<le> length ws"
    unfolding capturedAfter_def by blast
  from d w longest show ?thesis
  proof (induction ws arbitrary: s)
    case Nil
    from ne obtain c g' where g: "g = c # g'" by (cases g) auto
    have line: "dotPlus (g @ post) = Some g" by (rule dotPlus_line[OF ne nl eol])
    show ?case
    proof (cases "isWhiteSpace c")
      case False
      then show ?thesis using Nil.prems(1) g line by simp
    next
      case True
      have "wsStarDotPlus (g' @ post) = None"
      proof (rule ccontr)
        assume "wsStarDotPlus (g' @ post) \<noteq> None"
        then have "valueFollows (g' @ post)" by (simp add: wsStarDotPlus_None)
        then obtain ws0 c0 post0 where
          "g' @ post = ws0 @ c0 # post0" "list_all isWhiteSpace ws0" "\<not> isLineTerminator c0"
          unfolding valueFollows_def by blast
        with True Nil.prems(1) g have
          "s = (c # ws0) @ c0 # post0 \<and> list_all isWhiteSpace (c # ws0) \<and> \<not> isLineTerminator c0"
          by simp
        with Nil.prems(3) have "length (c # ws0) \<le> length ([]::string)" by blast
        then show False by simp
      qed
      then show ?thesis using Nil.prems(1) g line True by simp
    qed
  next
    case (Cons w1 ws1)
    let ?s1 = "ws1 @ g @ post"
    have "\<forall>ws' c' post'. ?s1 = ws' @ c' # post' \<and> list_all isWhiteSpace ws' \<and>
         \<not> isLineTerminator c' \<longrightarrow> length ws' \<le> length ws1"
    proof (intro allI impI)
      fix ws' c' post'
      assume a: "?s1 = ws' @ c' # post' \<and> list_all isWhiteSpace ws' \<and> \<not> isLineTerminator c'"
      with Cons.prems(1,2) have
        "s = (w1 # ws') @ c' # post' \<and> list_all isWhiteSpace (w1 # ws') \<and> \<not> isLineTerminator c'"
        by simp
      with Cons.prems(3) have "length (w1 # ws') \<le> length (w1 # ws1)" by blast
      then show "length ws' \<le> length ws1" by simp
    qed
    moreover have "list_all isWhiteSpace ws1" using Cons.prems(2) by simp
    ultimately have "wsStarDotPlus ?s1 = Some g" using Cons.IH[of ?s1] by blast
    then show ?case using Cons.prems(1,2) by simp
  qed
qed

lemma literalAt_Some:
  "literalAt variable s = Some g \<longleftrightarrow> (\<exists>rest. s = variable @ '':'' @ rest \<and> wsStarDotPlus rest = Some g)"
  by (auto simp: literalAt_def prefix_def)

lemma literalAt_None:
  "literalAt variable s = None \<longleftrightarrow> (\<forall>rest. s = variable @ '':'' @ rest \<longrightarrow> wsStarDotPlus rest = None)"
  by (auto simp: literalAt_def prefix_def)

lemma matchAtoms_literal:
  "matchAtoms (map Lit v) s = (if prefix v s then Some (drop (length v) s) else None)"
proof (induction v arbitrary: s)
  case Nil
  show ?case by simp
next
  case (Cons x v)
  show ?case by (cases s) (auto simp: Cons.IH)
qed

lemma compileName_literal: "regexLiteral variable \<Longrightarrow> compileName variable = map Lit variable"
proof -
  assume l: "regexLiteral variable"
  have "\<not> isWordChar (CHR ''.'')" by (simp add: isWordChar_def)
  with l have "\<forall>c \<in> set variable. c \<noteq> CHR ''.''"
    unfolding regexLiteral_def list_all_iff by auto
  then show ?thesis unfolding compileName_def by (induction variable) auto
qed

lemma matchAt_literal: "regexLiteral variable \<Longrightarrow> matchAt variable s = literalAt variable s"
proof -
  assume l: "regexLiteral variable"
  show ?thesis
  proof (cases "prefix variable s")
    case False
    then have "\<not> prefix (variable @ '':'') s" by (auto simp: prefix_def)
    with False show ?thesis
      by (simp add: matchAt_def literalAt_def compileName_literal[OF l] matchAtoms_literal)
  next
    case True
    then obtain rest where s: "s = variable @ rest" by (auto simp: prefix_def)
    show ?thesis
      unfolding s
      by (cases rest)
         (simp_all add: matchAt_def literalAt_def compileName_literal[OF l] matchAtoms_literal)
  qed
qed

lemma regexMatch_Some:
  "regexMatch m s = Some g \<Longrightarrow>
     \<exists>pre rest. s = pre @ rest \<and> m rest = Some g \<and>
       (\<forall>pre' rest'. s = pre' @ rest' \<and> length pre' < length pre \<longrightarrow> m rest' = None)"
proof (induction s)
  case Nil
  show ?case
  proof (rule exI[of _ "[]"], rule exI[of _ "[]"], intro conjI allI impI)
    show "[] = [] @ ([]::string)" by simp
    show "m [] = Some g" using Nil by simp
    fix pre' rest' :: string
    assume "[] = pre' @ rest' \<and> length pre' < length ([]::string)"
    then show "m rest' = None" by simp
  qed
next
  case (Cons c cs)
  show ?case
  proof (cases "m (c # cs)")
    case None
    with Cons.prems have "regexMatch m cs = Some g" by simp
    from Cons.IH[OF this] obtain pre rest where
      d: "cs = pre @ rest" and h: "m rest = Some g"
      and first: "\<forall>pre' rest'. cs = pre' @ rest' \<and> length pre' < length pre \<longrightarrow> m rest' = None"
      by blast
    show ?thesis
    proof (rule exI[of _ "c # pre"], rule exI[of _ rest], intro conjI allI impI)
      show "c # cs = (c # pre) @ rest" using d by simp
      show "m rest = Some g" by (rule h)
      fix pre' rest'
      assume a: "c # cs = pre' @ rest' \<and> length pre' < length (c # pre)"
      show "m rest' = None"
      proof (cases pre')
        case Nil
        with a None show ?thesis by simp
      next
        case (Cons p ps)
        with a have "cs = ps @ rest' \<and> length ps < length pre" by simp
        then show ?thesis by (rule first[rule_format])
      qed
    qed
  next
    case (Some h)
    show ?thesis
    proof (rule exI[of _ "[]"], rule exI[of _ "c # cs"], intro conjI allI impI)
      show "c # cs = [] @ c # cs" by simp
      show "m (c # cs) = Some g" using Cons.prems Some by simp
      fix pre' rest' :: string
      assume "c # cs = pre' @ rest' \<and> length pre' < length ([]::string)"
      then show "m rest' = None" by simp
    qed
  qed
qed

lemma regexMatch_first:
  assumes "m rest = Some g"
    and "\<forall>pre' rest'. pre @ rest = pre' @ rest' \<and> length pre' < length pre \<longrightarrow> m rest' = None"
  shows "regexMatch m (pre @ rest) = Some g"
  using assms
proof (induction pre)
  case Nil
  then show ?case by (cases rest) simp_all
next
  case (Cons p ps)
  have here: "m ((p # ps) @ rest) = None"
    using Cons.prems(2)[rule_format, of "[]" "(p # ps) @ rest"] by simp
  have "\<forall>pre' rest'. ps @ rest = pre' @ rest' \<and> length pre' < length ps \<longrightarrow> m rest' = None"
  proof (intro allI impI)
    fix pre' rest'
    assume "ps @ rest = pre' @ rest' \<and> length pre' < length ps"
    then have "(p # ps) @ rest = (p # pre') @ rest' \<and> length (p # pre') < length (p # ps)"
      by simp
    with Cons.prems(2) show "m rest' = None" by blast
  qed
  from Cons.IH[OF Cons.prems(1) this] here show ?case by simp
qed

lemma regexMatch_None:
  "regexMatch m s = None \<longleftrightarrow> (\<forall>pre rest. s = pre @ rest \<longrightarrow> m rest = None)"
proof (induction s)
  case Nil
  then show ?case by simp
next
  case (Cons c cs)
  show ?case
  proof
    assume a: "regexMatch m (c # cs) = None"
    then have h: "m (c # cs) = None" and r: "regexMatch m cs = None"
      by (auto split: option.splits)
    show "\<forall>pre rest. c # cs = pre @ rest \<longrightarrow> m rest = None"
    proof (intro allI impI)
      fix pre rest assume e: "c # cs = pre @ rest"
      show "m rest = None"
      proof (cases pre)
        case Nil
        with e h show ?thesis by simp
      next
        case (Cons p ps)
        with e have "cs = ps @ rest" by simp
        with r Cons.IH show ?thesis by blast
      qed
    qed
  next
    assume a: "\<forall>pre rest. c # cs = pre @ rest \<longrightarrow> m rest = None"
    have h: "m (c # cs) = None" using a[rule_format, of "[]" "c # cs"] by simp
    have "\<forall>pre rest. cs = pre @ rest \<longrightarrow> m rest = None"
    proof (intro allI impI)
      fix pre rest assume "cs = pre @ rest"
      then have "c # cs = (c # pre) @ rest" by simp
      with a show "m rest = None" by blast
    qed
    with Cons.IH have "regexMatch m cs = None" by simp
    with h show "regexMatch m (c # cs) = None" by simp
  qed
qed

lemma regexMatch_literal_None:
  "regexMatch (literalAt variable) s = None \<longleftrightarrow> \<not> patternOccurs variable s"
proof -
  have "regexMatch (literalAt variable) s = None \<longleftrightarrow>
        (\<forall>pre rest. s = pre @ variable @ '':'' @ rest \<longrightarrow> wsStarDotPlus rest = None)"
    unfolding regexMatch_None literalAt_None by blast
  also have "\<dots> \<longleftrightarrow> \<not> patternOccurs variable s"
    unfolding patternOccurs_def wsStarDotPlus_None by blast
  finally show ?thesis .
qed

lemma regexMatch_literal_Some:
  "regexMatch (literalAt variable) s = Some g \<longleftrightarrow> capturedBy variable s g"
proof
  assume "regexMatch (literalAt variable) s = Some g"
  from regexMatch_Some[OF this] obtain pre rest0 where
    s: "s = pre @ rest0" and m: "literalAt variable rest0 = Some g"
    and first: "\<forall>pre' rest'. s = pre' @ rest' \<and> length pre' < length pre \<longrightarrow>
        literalAt variable rest' = None" by blast
  from m obtain rest where r: "rest0 = variable @ '':'' @ rest" and w: "wsStarDotPlus rest = Some g"
    unfolding literalAt_Some by blast
  have "\<not> valueFollows rest'"
    if "s = pre' @ variable @ '':'' @ rest' \<and> length pre' < length pre" for pre' rest'
  proof -
    from that first have "literalAt variable (variable @ '':'' @ rest') = None" by blast
    then have "wsStarDotPlus rest' = None" unfolding literalAt_None by blast
    then show ?thesis by (simp add: wsStarDotPlus_None)
  qed
  moreover have "s = pre @ variable @ '':'' @ rest" using s r by simp
  moreover have "capturedAfter rest g" by (rule wsStarDotPlus_Some[OF w])
  ultimately show "capturedBy variable s g" unfolding capturedBy_def by blast
next
  assume "capturedBy variable s g"
  then obtain pre rest where
    s: "s = pre @ variable @ '':'' @ rest" and c: "capturedAfter rest g"
    and first: "\<forall>pre' rest'. s = pre' @ variable @ '':'' @ rest' \<and> length pre' < length pre \<longrightarrow>
        \<not> valueFollows rest'"
    unfolding capturedBy_def by blast
  have here: "literalAt variable (variable @ '':'' @ rest) = Some g"
    unfolding literalAt_Some using wsStarDotPlus_complete[OF c] by blast
  have earlier: "\<forall>pre' rest0. pre @ (variable @ '':'' @ rest) = pre' @ rest0 \<and>
      length pre' < length pre \<longrightarrow> literalAt variable rest0 = None"
  proof (intro allI impI)
    fix pre' rest0
    assume a: "pre @ (variable @ '':'' @ rest) = pre' @ rest0 \<and> length pre' < length pre"
    show "literalAt variable rest0 = None"
      unfolding literalAt_None
    proof (intro allI impI)
      fix rest' assume "rest0 = variable @ '':'' @ rest'"
      with a s have "s = pre' @ variable @ '':'' @ rest' \<and> length pre' < length pre" by simp
      with first have "\<not> valueFollows rest'" by blast
      then show "wsStarDotPlus rest' = None" by (simp add: wsStarDotPlus_None)
    qed
  qed
  from regexMatch_first[OF here earlier] s
  show "regexMatch (literalAt variable) s = Some g" by simp
qed

lemma trim_trimmed:
  "trim s = [] \<or> (\<not> isWhiteSpace (hd (trim s)) \<and> \<not> isWhiteSpace (last (trim s)))"
proof -
  let ?d = "dropWhile isWhiteSpace s"
  let ?r = "dropWhile isWhiteSpace (rev ?d)"
  show ?thesis
  proof (cases "?r = []")
    case True
    then show ?thesis by (simp add: trim_def)
  next
    case False
    have l: "\<not> isWhiteSpace (last (rev ?r))"
      using False hd_dropWhile[of isWhiteSpace "rev ?d"] by (simp add: last_rev)
    have dne: "?d \<noteq> []"
    proof
      assume e: "?d = []"
      have "?r = []" by (simp add: e)
      with False show False by simp
    qed
    then have hd_d: "\<not> isWhiteSpace (hd ?d)" using hd_dropWhile[of isWhiteSpace s] by simp
    have "\<exists>zs. rev ?d = zs @ ?r" by (metis takeWhile_dropWhile_id)
    then obtain zs where "rev ?d = zs @ ?r" by blast
    then have "?d = rev ?r @ rev zs" by (metis rev_append rev_rev_ident)
    with False have "hd ?d = hd (rev ?r)" by (metis hd_append2 rev_is_Nil_conv)
    with hd_d l show ?thesis by (simp add: trim_def)
  qed
qed

text \<open>
  C5, as the claim states it, fails: it is stated for every variable name, and a name is
  read as a pattern. Asked for the variable \<open>a.c\<close> on a host that prints \<open>abc: 1\<close>,
  \<open>getVariable\<close> returns \<open>1\<close>, although the text \<open>a.c:\<close> followed by a value does
  not occur in the output.
\<close>

theorem getVariable_name_as_pattern_counterexample:
  "getVariable oneLineReply ''a.c'' '''' = Some ''1'' \<and>
   \<not> patternOccurs ''a.c'' ''abc: 1'' \<and>
   \<not> regexLiteral ''a.c''"
proof (intro conjI)
  show "getVariable oneLineReply ''a.c'' '''' = Some ''1''"
    by code_simp
  have none: "regexMatch (literalAt ''a.c'') ''abc: 1'' = None"
    by code_simp
  show "\<not> patternOccurs ''a.c'' ''abc: 1''"
    using none regexMatch_literal_None[of "''a.c''" "''abc: 1''"] by blast
  show "\<not> regexLiteral ''a.c''"
    by code_simp
qed

text \<open>
  C5, amended. For every variable name made of letters, digits, \<open>-\<close>, \<open>_\<close> and \<open>:\<close>,
  \<open>getVariable\<close> matches the pattern against the standard output followed by the
  standard error. When the process fails the result is absent. When it succeeds the result
  is absent exactly when the pattern \<open>name: value\<close> does not occur in the combined text,
  the name being compared case-sensitively. Otherwise the result is the trimmed text that
  the first occurrence of the pattern captures: the text after the name, the colon and the
  longest run of white space that is still followed by a character other than a line
  terminator, up to the end of the line. A value that is returned has no white space at
  either end.
\<close>

theorem getVariable_combined_channels:
  assumes "regexLiteral variable"
    and "command = (if devicePrefix \<noteq> '''' then ''fastboot '' @ devicePrefix @ '' getvar '' @ variable
                    else ''fastboot getvar '' @ variable)"
  shows "(\<forall>msg. execAsync command = Inl msg \<longrightarrow> getVariable execAsync variable devicePrefix = None) \<and>
         (\<forall>io. execAsync command = Inr io \<longrightarrow>
            (getVariable execAsync variable devicePrefix = None \<longleftrightarrow>
               \<not> patternOccurs variable (stdout io @ stderr io)) \<and>
            (\<forall>v. getVariable execAsync variable devicePrefix = Some v \<longleftrightarrow>
               (\<exists>g. capturedBy variable (stdout io @ stderr io) g \<and> v = trim g)) \<and>
            (\<forall>v. getVariable execAsync variable devicePrefix = Some v \<longrightarrow>
               v = [] \<or> \<not> isWhiteSpace (hd v) \<and> \<not> isWhiteSpace (last v)))"
proof (intro conjI allI impI)
  fix msg assume "execAsync command = Inl msg"
  then show "getVariable execAsync variable devicePrefix = None"
    using assms(2) by (simp add: getVariable_def)
next
  fix io assume e: "execAsync command = Inr io"
  have lit: "matchAt variable = literalAt variable"
    using matchAt_literal[OF assms(1)] by blast
  have gv: "getVariable execAsync variable devicePrefix =
            map_option trim (regexMatch (literalAt variable) (stdout io @ stderr io))"
    using assms(2) e by (simp add: getVariable_def Let_def lit split: option.split)
  show "getVariable execAsync variable devicePrefix = None \<longleftrightarrow>
        \<not> patternOccurs variable (stdout io @ stderr io)"
    by (simp add: gv regexMatch_literal_None)
  show "getVariable execAsync variable devicePrefix = Some v \<longleftrightarrow>
        (\<exists>g. capturedBy variable (stdout io @ stderr io) g \<and> v = trim g)" for v
    unfolding gv regexMatch_literal_Some[symmetric] by auto
  show "v = [] \<or> \<not> isWhiteSpace (hd v) \<and> \<not> isWhiteSpace (last v)"
    if "getVariable execAsync variable devicePrefix = Some v" for v
  proof -
    from that obtain g where "v = trim g" unfolding gv by auto
    then show ?thesis using trim_trimmed[of g] by simp
  qed
qed

theorem getVariable_combined_channels_witness:
  "regexLiteral ''unlocked'' \<and> regexLiteral ''Unlocked'' \<and>
   getVariable twoDevices ''unlocked'' '''' = Some ''yes'' \<and>
   patternOccurs ''unlocked''
     ('''' @ ''unlocked: yes '' @ [CHR 0x0A] @ ''secure:'' @ [CHR 0x0A] @
      ''Finished. Total time: 0.001s'' @ [CHR 0x0A]) \<and>
   (\<exists>g. capturedBy ''unlocked''
          ('''' @ ''unlocked: yes '' @ [CHR 0x0A] @ ''secure:'' @ [CHR 0x0A] @
           ''Finished. Total time: 0.001s'' @ [CHR 0x0A]) g \<and>
        ''yes'' = trim g) \<and>
   getVariable twoDevices ''Unlocked'' '''' = None \<and>
   \<not> patternOccurs ''Unlocked''
     ('''' @ ''unlocked: yes '' @ [CHR 0x0A] @ ''secure:'' @ [CHR 0x0A] @
      ''Finished. Total time: 0.001s'' @ [CHR 0x0A]) \<and>
   getVariable noFastboot ''unlocked'' '''' = None"
proof -
  let ?io = "\<lparr>stdout = '''',
              stderr = ''unlocked: yes '' @ [CHR 0x0A] @ ''secure:'' @ [CHR 0x0A] @
                       ''Finished. Total time: 0.001s'' @ [CHR 0x0A]\<rparr>"
  have lower: "twoDevices (if '''' \<noteq> '''' then ''fastboot '' @ '''' @ '' getvar '' @ ''unlocked''
                           else ''fastboot getvar '' @ ''unlocked'') = Inr ?io"
    by (simp add: twoDevices_def)
  have upper: "twoDevices (if '''' \<noteq> '''' then ''fastboot '' @ '''' @ '' getvar '' @ ''Unlocked''
                           else ''fastboot getvar '' @ ''Unlocked'') = Inr ?io"
    by (simp add: twoDevices_def)
  have failed: "noFastboot (if '''' \<noteq> '''' then ''fastboot '' @ '''' @ '' getvar '' @ ''unlocked''
                            else ''fastboot getvar '' @ ''unlocked'') = Inl ''fastboot: not found''"
    by (simp add: noFastboot_def)
  have name: "regexLiteral ''unlocked''" and Name: "regexLiteral ''Unlocked''"
    by code_simp+
  have found: "getVariable twoDevices ''unlocked'' '''' = Some ''yes''"
    by code_simp
  have absent: "getVariable twoDevices ''Unlocked'' '''' = None"
    by code_simp
  note ok = getVariable_combined_channels[OF name refl, of twoDevices "''''",
      THEN conjunct2, THEN spec, THEN mp, OF lower]
  note OK = getVariable_combined_channels[OF Name refl, of twoDevices "''''",
      THEN conjunct2, THEN spec, THEN mp, OF upper]
  note ko = getVariable_combined_channels[OF name refl, of noFastboot "''''",
      THEN conjunct1, THEN spec, THEN mp, OF failed]
  from ok[THEN conjunct1] found
  have occurs: "patternOccurs ''unlocked'' (stdout ?io @ stderr ?io)" by simp
  from ok[THEN conjunct2, THEN conjunct1, THEN spec, of "''yes''"] found
  have captured: "\<exists>g. capturedBy ''unlocked'' (stdout ?io @ stderr ?io) g \<and> ''yes'' = trim g"
    by blast
  from OK[THEN conjunct1] absent
  have missing: "\<not> patternOccurs ''Unlocked'' (stdout ?io @ stderr ?io)" by simp
  have "regexLiteral ''unlocked'' \<and> regexLiteral ''Unlocked'' \<and>
   getVariable twoDevices ''unlocked'' '''' = Some ''yes'' \<and>
   patternOccurs ''unlocked'' (stdout ?io @ stderr ?io) \<and>
   (\<exists>g. capturedBy ''unlocked'' (stdout ?io @ stderr ?io) g \<and> ''yes'' = trim g) \<and>
   getVariable twoDevices ''Unlocked'' '''' = None \<and>
   \<not> patternOccurs ''Unlocked'' (stdout ?io @ stderr ?io) \<and>
   getVariable noFastboot ''unlocked'' '''' = None"
    by (intro conjI) (rule name Name found occurs captured absent missing ko)+
  then show ?thesis by simp
qed

subsection \<open>Bootloader information\<close>

lemma executeCommand_resultOf:
  "executeCommand execAsync command deviceId = Inr (resultOf (execAsync (fullCommand command deviceId)))"
  by (simp add: executeCommand_def resultOf_def split: sum.split)

lemma fullCommand_no_device: "fullCommand command None = ''fastboot '' @ command"
  by (simp add: fullCommand_def devicePrefixOf_def)

text \<open>
  C9. \<open>getBootloaderInfo\<close> never throws. With no device connected it returns
  \<open>null\<close>. Otherwise it returns an information record whose \<open>locked\<close> field is true
  exactly when the \<open>unlocked\<close> variable, as read by \<open>getVariable\<close>, is not the string
  \<open>yes\<close>; in particular the device is reported locked when the variable is absent or
  cannot be read.
\<close>

theorem getBootloaderInfo_locked_unless_yes:
  "(\<exists>r. getBootloaderInfo execAsync deviceId = Inr r) \<and>
   (getConnectedDevices execAsync = [] \<longrightarrow> getBootloaderInfo execAsync deviceId = Inr None) \<and>
   (getConnectedDevices execAsync \<noteq> [] \<longrightarrow>
      (\<exists>info. getBootloaderInfo execAsync deviceId = Inr (Some info) \<and>
         (locked info \<longleftrightarrow>
            getVariable execAsync ''unlocked'' (devicePrefixOf deviceId) \<noteq> Some ''yes'') \<and>
         (getVariable execAsync ''unlocked'' (devicePrefixOf deviceId) = None \<longrightarrow> locked info)))"
proof (cases "getConnectedDevices execAsync = []")
  case True
  then show ?thesis by (simp add: getBootloaderInfo_def)
next
  case False
  then show ?thesis by (simp add: getBootloaderInfo_def Let_def)
qed

theorem getBootloaderInfo_locked_unless_yes_witness:
  "getConnectedDevices noFastboot = [] \<and>
   getBootloaderInfo noFastboot None = Inr None \<and>
   getConnectedDevices twoDevices \<noteq> [] \<and>
   getVariable twoDevices ''unlocked'' (devicePrefixOf None) = Some ''yes'' \<and>
   (\<exists>info. getBootloaderInfo twoDevices None = Inr (Some info) \<and> \<not> locked info) \<and>
   getVariable twoDevices ''unlocked'' (devicePrefixOf (Some ''8f2a01'')) = None \<and>
   (\<exists>info. getBootloaderInfo twoDevices (Some ''8f2a01'') = Inr (Some info) \<and> locked info)"
proof -
  have none: "getConnectedDevices noFastboot = []"
    by (simp add: getConnectedDevices_def noFastboot_def)
  have two: "getConnectedDevices twoDevices \<noteq> []"
    by code_simp
  have yes: "getVariable twoDevices ''unlocked'' (devicePrefixOf None) = Some ''yes''"
    by code_simp
  have unread: "getVariable twoDevices ''unlocked'' (devicePrefixOf (Some ''8f2a01'')) = None"
    by code_simp
  from getBootloaderInfo_locked_unless_yes[of noFastboot None] none
  have "getBootloaderInfo noFastboot None = Inr None" by blast
  moreover
  from getBootloaderInfo_locked_unless_yes[of twoDevices None] two yes
  have "\<exists>info. getBootloaderInfo twoDevices None = Inr (Some info) \<and> \<not> locked info" by auto
  moreover
  from getBootloaderInfo_locked_unless_yes[of twoDevices "Some ''8f2a01''"] two unread
  have "\<exists>info. getBootloaderInfo twoDevices (Some ''8f2a01'') = Inr (Some info) \<and> locked info"
    by auto
  ultimately show ?thesis using none two yes unread by blast
qed

subsection \<open>Device selection\<close>

text \<open>
  C7, as the claim states it, fails: with two devices attached and no device id,
  \<open>executeCommand\<close> runs the command and reports success, and \<open>getBootloaderInfo\<close>
  returns an information record. No error is returned.
\<close>

theorem no_DeviceAmbiguous_counterexample:
  "getConnectedDevices twoDevices = [''8f2a01'', ''77c3d9''] \<and>
   executeCommand twoDevices ''erase userdata'' None =
     Inr \<lparr>success = True, output' = ''OKAY'', error = None\<rparr> \<and>
   getBootloaderInfo twoDevices None =
     Inr (Some \<lparr>version = ''Unknown'', variant = ''Unknown'', locked = False,
                 secureboot = False, serialNumber = ''Unknown''\<rparr>)"
proof (intro conjI)
  show "getConnectedDevices twoDevices = [''8f2a01'', ''77c3d9'']"
    by code_simp
  show "executeCommand twoDevices ''erase userdata'' None =
          Inr \<lparr>success = True, output' = ''OKAY'', error = None\<rparr>"
    by (simp add: executeCommand_def fullCommand_def devicePrefixOf_def twoDevices_def)
  show "getBootloaderInfo twoDevices None =
          Inr (Some \<lparr>version = ''Unknown'', variant = ''Unknown'', locked = False,
                      secureboot = False, serialNumber = ''Unknown''\<rparr>)"
    by code_simp
qed

text \<open>
  C7, amended. Invoked without a device id, \<open>executeCommand\<close> runs
  \<open>fastboot <command>\<close> with no device selector and returns the result of that process,
  whatever the number of attached devices; \<open>getBootloaderInfo\<close>, as soon as at least one
  device is listed, reads its five variables with commands that carry no selector. Neither
  consults the number of devices, and neither returns a \<open>DeviceAmbiguous\<close> error: the
  choice of the device is left to the fastboot binary.
\<close>

theorem no_device_id_runs_unselected:
  "executeCommand execAsync command None = Inr (resultOf (execAsync (''fastboot '' @ command))) \<and>
   (getConnectedDevices execAsync \<noteq> [] \<longrightarrow>
      getBootloaderInfo execAsync None =
        Inr (Some \<lparr>version = orUnknown (getVariable execAsync ''version-bootloader'' ''''),
                    variant = orUnknown (getVariable execAsync ''variant'' ''''),
                    locked = (getVariable execAsync ''unlocked'' '''' \<noteq> Some ''yes''),
                    secureboot = (getVariable execAsync ''secure'' '''' = Some ''yes''),
                    serialNumber = orUnknown (getVariable execAsync ''serialno'' '''')\<rparr>))"
  by (simp add: executeCommand_resultOf fullCommand_no_device getBootloaderInfo_def
      devicePrefixOf_def Let_def)

theorem no_device_id_runs_unselected_witness:
  "getConnectedDevices twoDevices \<noteq> [] \<and>
   executeCommand twoDevices ''erase userdata'' None =
     Inr (resultOf (twoDevices (''fastboot '' @ ''erase userdata''))) \<and>
   (\<exists>info. getBootloaderInfo twoDevices None = Inr (Some info))"
proof -
  have two: "getConnectedDevices twoDevices \<noteq> []"
    by code_simp
  from no_device_id_runs_unselected[of twoDevices "''erase userdata''"] two
  show ?thesis by blast
qed

subsection \<open>Partition operations\<close>

text \<open>
  C3. The partition operations are to reject a partition or path argument that carries a
  shell metacharacter. The code does not: at the partition name \<open>cache; reboot\<close>
  neither the manager operation nor the route rejects. Both hand the shell the line
  \<open>fastboot erase cache; reboot\<close>, which holds a second command after the semicolon,
  and both report its success.
\<close>

theorem erasePartition_runs_injected_command:
  "includesStr ''cache; reboot'' '';'' \<and>
   fullCommand (''erase '' @ ''cache; reboot'') None = ''fastboot erase cache; reboot'' \<and>
   erasePartition twoDevices ''cache; reboot'' None =
     Inr \<lparr>success = True, output' = ''OKAY'', error = None\<rparr> \<and>
   fastbootPost twoDevices (\<lambda>path. None) ErasePartition
     (emptyBody\<lparr>body_erasePartition := Some ''cache; reboot''\<rparr>) =
     CommandJson \<lparr>success = True, output' = ''OKAY'', error = None\<rparr>"
proof (intro conjI)
  show "includesStr ''cache; reboot'' '';''"
    by code_simp
  show "fullCommand (''erase '' @ ''cache; reboot'') None = ''fastboot erase cache; reboot''"
    by (simp add: fullCommand_def devicePrefixOf_def)
  show "erasePartition twoDevices ''cache; reboot'' None =
          Inr \<lparr>success = True, output' = ''OKAY'', error = None\<rparr>"
    by (simp add: erasePartition_def executeCommand_def fullCommand_def devicePrefixOf_def
        twoDevices_def)
  show "fastbootPost twoDevices (\<lambda>path. None) ErasePartition
          (emptyBody\<lparr>body_erasePartition := Some ''cache; reboot''\<rparr>) =
          CommandJson \<lparr>success = True, output' = ''OKAY'', error = None\<rparr>"
    by (simp add: fastbootPost_def falsy_def orDefault_def commandResponse_def emptyBody_def
        erasePartition_def executeCommand_def fullCommand_def devicePrefixOf_def twoDevices_def)
qed

subsection \<open>Waiting for a device\<close>

declare waitLoop.simps [simp del]


text \<open>
  C10. For every timeout less than or equal to zero, \<open>waitForDevice\<close> returns false at
  once and never queries the device list, whatever is attached.
\<close>

theorem waitForDevice_nonpositive_timeout:
  "timeout \<le> 0 \<Longrightarrow>
     waitForDevice shellAt pollCost startTime timeout =
       \<lparr>returned = False, pollTimes = [], returnTime = startTime\<rparr>"
  unfolding waitForDevice_def by (subst waitLoop.simps) simp

theorem waitForDevice_nonpositive_timeout_witness:
  "(0::int) \<le> 0 \<and> getConnectedDevices twoDevices = [''8f2a01'', ''77c3d9''] \<and>
   waitForDevice (\<lambda>t. twoDevices) 250 0 0 = \<lparr>returned = False, pollTimes = [], returnTime = 0\<rparr>"
proof -
  have attached: "getConnectedDevices twoDevices = [''8f2a01'', ''77c3d9'']"
    by code_simp
  have le: "(0::int) \<le> 0" by simp
  from waitForDevice_nonpositive_timeout[OF le, of "\<lambda>t. twoDevices" 250 0] attached le
  show ?thesis by simp
qed




subsection \<open>The final event of a flash session\<close>

text \<open>
  C1, as the claim states it, fails: a session that has reported sixty percent in its
  flashing stage and then fails ends its stream with an event whose progress is zero, not
  sixty, and which has no error field.
\<close>

theorem final_event_counterexample:
  "eventStage (last (emitted failsWhileFlashing)) = ''flashing'' \<and>
   eventProgress (last (emitted failsWhileFlashing)) = 60 \<and>
   eventSuccess (last (flashStream failsWhileFlashing)) = Some False \<and>
   eventProgress (last (flashStream failsWhileFlashing)) = 0 \<and>
   eventError (last (flashStream failsWhileFlashing)) = None"
  by (simp add: failsWhileFlashing_def flashStream_def)

text \<open>
  C1, amended. For every flash session the stream is the progress events of the session in
  order, followed by one final event. The final event carries a terminal success boolean.
  When the session succeeds it carries progress 100 and no error. When the session returns
  failure it carries progress 0, not the last known percentage, and no error field. When
  the session throws it carries progress 0, success false and the message of the
  exception as its error.
\<close>

theorem final_event_of_flash_stream:
  "flashStream run = emitted run @ [last (flashStream run)] \<and>
   (case ended run of
      Inr ok \<Rightarrow>
        eventSuccess (last (flashStream run)) = Some ok \<and>
        eventProgress (last (flashStream run)) = (if ok then 100 else 0) \<and>
        eventError (last (flashStream run)) = None
    | Inl msg \<Rightarrow>
        eventSuccess (last (flashStream run)) = Some False \<and>
        eventProgress (last (flashStream run)) = 0 \<and>
        eventError (last (flashStream run)) = Some msg)"
  by (simp add: flashStream_def split: sum.split)

lemma postFlash_streams_every_request:
  "firmwarePath = Some path \<Longrightarrow> path \<noteq> '''' \<Longrightarrow>
     postFlash flashRadioFirmware firmwarePath deviceId =
       EventStream (flashStream (flashRadioFirmware path deviceId))"
  by (simp add: postFlash_def falsy_def orDefault_def)

subsection \<open>The session registry\<close>

lemma length_filter_map_le:
  "(\<And>x. P (f x) \<Longrightarrow> Q x) \<Longrightarrow> length (filter P (map f xs)) \<le> length (filter Q xs)"
  by (induction xs) auto

lemma activeSessions_advance:
  "length (activeSessions (advanceSession registry d) d') \<le> length (activeSessions registry d')"
  unfolding activeSessions_def advanceSession_def
  by (rule length_filter_map_le) (auto split: if_splits)

lemma activeSessions_fail:
  "length (activeSessions (failSession registry d err) d') \<le> length (activeSessions registry d')"
  unfolding activeSessions_def failSession_def
  by (rule length_filter_map_le) (auto split: if_splits)

lemma activeSessions_start:
  "activeSessions registry d = [] \<Longrightarrow>
     length (activeSessions (snd (startFlash registry d now)) d') =
       (if d' = d then 1 else length (activeSessions registry d'))"
  by (auto simp: startFlash_def activeSessions_def terminal_def)

lemma applyOp_keeps_one_active:
  assumes "\<forall>d. length (activeSessions registry d) \<le> 1"
  shows "\<forall>d. length (activeSessions (applyOp registry op) d) \<le> 1"
proof (cases op)
  case (Start d now)
  show ?thesis
  proof (cases "activeSessions registry d = []")
    case True
    then show ?thesis using assms Start by (simp add: activeSessions_start)
  next
    case False
    then show ?thesis using assms Start by (simp add: startFlash_def)
  qed
next
  case (Advance d)
  show ?thesis
  proof
    fix d'
    have "length (activeSessions (advanceSession registry d) d') \<le> length (activeSessions registry d')"
      by (rule activeSessions_advance)
    also have "\<dots> \<le> 1" using assms by blast
    finally show "length (activeSessions (applyOp registry op) d') \<le> 1" using Advance by simp
  qed
next
  case (Fail d err)
  show ?thesis
  proof
    fix d'
    have "length (activeSessions (failSession registry d err) d') \<le> length (activeSessions registry d')"
      by (rule activeSessions_fail)
    also have "\<dots> \<le> 1" using assms by blast
    finally show "length (activeSessions (applyOp registry op) d') \<le> 1" using Fail by simp
  qed
qed

lemma foldl_applyOp_keeps_one_active:
  "\<forall>d. length (activeSessions registry d) \<le> 1 \<Longrightarrow>
     \<forall>d. length (activeSessions (foldl applyOp registry ops) d) \<le> 1"
proof (induction ops arbitrary: registry)
  case Nil
  then show ?case by simp
next
  case (Cons op ops)
  from applyOp_keeps_one_active[OF Cons.prems]
  have "\<forall>d. length (activeSessions (applyOp registry op) d) \<le> 1" .
  from Cons.IH[OF this] show ?case by simp
qed

text \<open>
  C8. Starting from the empty registry, after any sequence of flash requests, stage
  advances and failures, every device id has at most one non-terminal session. A flash
  request for a device id that has a non-terminal session is rejected with
  \<open>SessionAlreadyActive\<close> and returns the registry unchanged: nothing is queued or
  merged. A request for a device id without one is accepted and gives it exactly one.
\<close>

theorem one_active_session_per_device:
  "(\<forall>d. length (activeSessions (foldl applyOp [] ops) d) \<le> 1) \<and>
   (activeSessions registry d \<noteq> [] \<longrightarrow>
      startFlash registry d now = (Inl SessionAlreadyActive, registry)) \<and>
   (activeSessions registry d = [] \<longrightarrow>
      fst (startFlash registry d now) = Inr () \<and>
      length (activeSessions (snd (startFlash registry d now)) d) = 1)"
proof (intro conjI impI)
  show "\<forall>d. length (activeSessions (foldl applyOp [] ops) d) \<le> 1"
    by (rule foldl_applyOp_keeps_one_active) (simp add: activeSessions_def)
  show "startFlash registry d now = (Inl SessionAlreadyActive, registry)"
    if "activeSessions registry d \<noteq> []"
    using that by (simp add: startFlash_def)
  show "fst (startFlash registry d now) = Inr ()" if "activeSessions registry d = []"
    using that by (simp add: startFlash_def)
  show "length (activeSessions (snd (startFlash registry d now)) d) = 1"
    if "activeSessions registry d = []"
    using that by (simp add: activeSessions_start)
qed

theorem one_active_session_per_device_witness:
  "activeSessions (foldl applyOp [] [Start ''8f2a01'' 0, Advance ''8f2a01'']) ''8f2a01'' \<noteq> [] \<and>
   startFlash (foldl applyOp [] [Start ''8f2a01'' 0, Advance ''8f2a01'']) ''8f2a01'' 7 =
     (Inl SessionAlreadyActive, foldl applyOp [] [Start ''8f2a01'' 0, Advance ''8f2a01'']) \<and>
   length (activeSessions
     (foldl applyOp [] [Start ''8f2a01'' 0, Advance ''8f2a01'', Start ''8f2a01'' 7]) ''8f2a01'') \<le> 1 \<and>
   activeSessions (foldl applyOp [] [Start ''8f2a01'' 0, Fail ''8f2a01'' ''Command failed''])
     ''8f2a01'' = [] \<and>
   fst (startFlash (foldl applyOp [] [Start ''8f2a01'' 0, Fail ''8f2a01'' ''Command failed''])
     ''8f2a01'' 9) = Inr ()"
proof -
  let ?busy = "foldl applyOp [] [Start ''8f2a01'' 0, Advance ''8f2a01'']"
  let ?done = "foldl applyOp [] [Start ''8f2a01'' 0, Fail ''8f2a01'' ''Command failed'']"
  have busy: "activeSessions ?busy ''8f2a01'' \<noteq> []"
    by (simp add: startFlash_def activeSessions_def advanceSession_def terminal_def)
  have idle: "activeSessions ?done ''8f2a01'' = []"
    by (simp add: startFlash_def activeSessions_def failSession_def terminal_def)
  from one_active_session_per_device[of _ ?busy "''8f2a01''" 7] busy
  have a: "startFlash ?busy ''8f2a01'' 7 = (Inl SessionAlreadyActive, ?busy)" by blast
  from one_active_session_per_device[of "[Start ''8f2a01'' 0, Advance ''8f2a01'', Start ''8f2a01'' 7]"]
  have b: "length (activeSessions
     (foldl applyOp [] [Start ''8f2a01'' 0, Advance ''8f2a01'', Start ''8f2a01'' 7]) ''8f2a01'') \<le> 1"
    by blast
  from one_active_session_per_device[of _ ?done "''8f2a01''" 9] idle
  have c: "fst (startFlash ?done ''8f2a01'' 9) = Inr ()" by blast
  show ?thesis using busy idle a b c by blast
qed

subsection \<open>The order of versions\<close>

lemma lexCompare_values: "lexCompare xs ys = -1 \<or> lexCompare xs ys = 0 \<or> lexCompare xs ys = 1"
  by (induction xs ys rule: lexCompare.induct) auto

lemma lexCompare_flip: "lexCompare xs ys = - lexCompare ys xs"
  by (induction xs ys rule: lexCompare.induct) auto

lemma lexCompare_zero: "lexCompare xs ys = 0 \<longleftrightarrow> xs = ys"
  by (induction xs ys rule: lexCompare.induct) auto

lemma lexCompare_less_trans:
  "lexCompare xs ys < 0 \<Longrightarrow> lexCompare ys zs < 0 \<Longrightarrow> lexCompare xs zs < 0"
proof (induction xs ys arbitrary: zs rule: lexCompare.induct)
  case 1
  then show ?case by simp
next
  case (2 y ys)
  then show ?case by (cases zs) (auto split: if_splits)
next
  case (3 x xs)
  then show ?case by simp
next
  case (4 x xs y ys)
  show ?case
  proof (cases zs)
    case Nil
    with "4.prems" show ?thesis by simp
  next
    case (Cons z zs')
    show ?thesis
    proof (cases "x < y")
      case True
      with "4.prems" Cons show ?thesis by (auto split: if_splits)
    next
      case False
      with "4.prems" have xy: "x = y" and rest: "lexCompare xs ys < 0"
        by (auto split: if_splits)
      show ?thesis
      proof (cases "y < z")
        case True
        with xy Cons show ?thesis by simp
      next
        case False
        with "4.prems" Cons have yz: "y = z" and rest': "lexCompare ys zs' < 0"
          by (auto split: if_splits)
        from "4.IH"[of zs'] xy rest rest' have "lexCompare xs zs' < 0" by simp
        with xy yz Cons show ?thesis by simp
      qed
    qed
  qed
qed

lemma lexCompare_le_trans:
  assumes "lexCompare xs ys \<le> 0" and "lexCompare ys zs \<le> 0"
  shows "lexCompare xs zs \<le> 0"
proof (cases "lexCompare xs ys = 0 \<or> lexCompare ys zs = 0")
  case True
  then show ?thesis using assms by (auto simp: lexCompare_zero)
next
  case False
  with assms have "lexCompare xs ys < 0" "lexCompare ys zs < 0" by auto
  then have "lexCompare xs zs < 0" by (rule lexCompare_less_trans)
  then show ?thesis by simp
qed

lemma lexCompare_first_difference:
  "a < b \<Longrightarrow> lexCompare (p @ a # s) (p @ b # t) = -1"
  by (induction p) auto

lemma twoLevel_values:
  "twoLevel ka ta kb tb = -1 \<or> twoLevel ka ta kb tb = 0 \<or> twoLevel ka ta kb tb = 1"
  unfolding twoLevel_def Let_def
  using lexCompare_values[of ka kb] lexCompare_values[of ta tb] by auto

lemma twoLevel_flip: "twoLevel ka ta kb tb = - twoLevel kb tb ka ta"
  unfolding twoLevel_def Let_def
  using lexCompare_flip[of ka kb] lexCompare_flip[of ta tb] by simp

lemma twoLevel_zero: "twoLevel ka ta kb tb = 0 \<longleftrightarrow> ka = kb \<and> ta = tb"
  unfolding twoLevel_def Let_def by (auto simp: lexCompare_zero)

lemma twoLevel_first_difference:
  "a < b \<Longrightarrow> twoLevel (p @ a # s) ta (p @ b # t) tb = -1"
  unfolding twoLevel_def Let_def by (simp add: lexCompare_first_difference)

lemma twoLevel_trans:
  assumes "twoLevel ka ta kb tb \<le> 0" and "twoLevel kb tb kc tc \<le> 0"
  shows "twoLevel ka ta kc tc \<le> 0"
proof -
  have xy: "lexCompare ka kb < 0 \<or> (lexCompare ka kb = 0 \<and> lexCompare ta tb \<le> 0)"
    using assms(1) unfolding twoLevel_def Let_def by (auto split: if_splits)
  have yz: "lexCompare kb kc < 0 \<or> (lexCompare kb kc = 0 \<and> lexCompare tb tc \<le> 0)"
    using assms(2) unfolding twoLevel_def Let_def by (auto split: if_splits)
  have "lexCompare ka kc < 0 \<or> (lexCompare ka kc = 0 \<and> lexCompare ta tc \<le> 0)"
  proof (cases "lexCompare ka kb = 0")
    case True
    then have e: "ka = kb" by (simp add: lexCompare_zero)
    show ?thesis
    proof (cases "lexCompare kb kc = 0")
      case True
      with e have "lexCompare ka kc = 0" by simp
      moreover have "lexCompare ta tc \<le> 0"
        using xy yz \<open>lexCompare ka kb = 0\<close> True lexCompare_le_trans by auto
      ultimately show ?thesis by simp
    next
      case False
      with yz have "lexCompare kb kc < 0" by simp
      then show ?thesis unfolding e by simp
    qed
  next
    case False
    with xy have l: "lexCompare ka kb < 0" by simp
    show ?thesis
    proof (cases "lexCompare kb kc = 0")
      case True
      then have "kb = kc" by (simp add: lexCompare_zero)
      with l show ?thesis by simp
    next
      case False
      with yz have "lexCompare kb kc < 0" by simp
      with l have "lexCompare ka kc < 0" by (rule lexCompare_less_trans)
      then show ?thesis by simp
    qed
  qed
  then show ?thesis unfolding twoLevel_def Let_def by (auto split: if_splits)
qed

lemma those_map_Some: "those (map Some ys) = Some ys"
  by (induction ys) simp_all

lemma keys_of_version:
  assumes "versionAlphabet a"
  shows "those (map primaryWeight a) = Some (map (\<lambda>c. the (primaryWeight c)) a)"
proof -
  have "map primaryWeight a = map Some (map (\<lambda>c. the (primaryWeight c)) a)"
    using assms unfolding versionAlphabet_def list_all_iff by (induction a) auto
  then show ?thesis by (simp only: those_map_Some)
qed

lemma versionCollation_of_versions:
  assumes "versionAlphabet a" and "versionAlphabet b"
  shows "versionCollation a b =
     Some (twoLevel (map (\<lambda>c. the (primaryWeight c)) a) (map tertiaryWeight a)
                    (map (\<lambda>c. the (primaryWeight c)) b) (map tertiaryWeight b))"
  unfolding versionCollation_def
  by (simp add: keys_of_version[OF assms(1)] keys_of_version[OF assms(2)])

lemma of_char_from_weights:
  assumes "primaryWeight c = Some p"
  shows "(of_char c :: nat) =
     (if p = 0 then 46
      else if p \<le> 10 then p + 47
      else if isUpperCase c then p + 54 else p + 86)"
proof -
  define n where "n = (of_char c :: nat)"
  have dot: "c = CHR ''.'' \<longleftrightarrow> n = 46"
  proof -
    have "(of_char (CHR ''.'') :: nat) = 46" by simp
    then show ?thesis unfolding n_def by (metis of_char_eq_iff)
  qed
  have pw: "(if n = 46 then Some 0
         else if 48 \<le> n \<and> n \<le> 57 then Some (1 + (n - 48))
         else if 97 \<le> n \<and> n \<le> 122 then Some (11 + (n - 97))
         else if 65 \<le> n \<and> n \<le> 90 then Some (11 + (n - 65))
         else None) = Some p"
    using assms dot unfolding primaryWeight_def Let_def n_def by simp
  have up: "isUpperCase c \<longleftrightarrow> 65 \<le> n \<and> n \<le> 90"
    unfolding isUpperCase_def Let_def n_def by simp
  consider (dot) "n = 46" | (digit) "48 \<le> n \<and> n \<le> 57" | (lower) "97 \<le> n \<and> n \<le> 122"
    | (upper) "65 \<le> n \<and> n \<le> 90"
    | (other) "n \<noteq> 46 \<and> \<not> (48 \<le> n \<and> n \<le> 57) \<and> \<not> (97 \<le> n \<and> n \<le> 122) \<and> \<not> (65 \<le> n \<and> n \<le> 90)"
    by blast
  then have "n = (if p = 0 then 46
      else if p \<le> 10 then p + 47
      else if isUpperCase c then p + 54 else p + 86)"
  proof cases
    case dot
    with pw have "p = 0" by simp
    with dot show ?thesis by simp
  next
    case digit
    with pw have "p = 1 + (n - 48)" by auto
    with digit show ?thesis unfolding up by auto
  next
    case lower
    with pw have "p = 11 + (n - 97)" by auto
    with lower show ?thesis unfolding up by auto
  next
    case upper
    with pw have "p = 11 + (n - 65)" by auto
    with upper show ?thesis unfolding up by auto
  next
    case other
    with pw show ?thesis by simp
  qed
  then show ?thesis unfolding n_def .
qed

lemma weights_injective:
  assumes "primaryWeight c = Some p" and "primaryWeight d = Some p"
    and "tertiaryWeight c = tertiaryWeight d"
  shows "c = d"
proof -
  from assms(3) have "isUpperCase c \<longleftrightarrow> isUpperCase d"
    unfolding tertiaryWeight_def by (auto split: if_splits)
  then have "(of_char c :: nat) = of_char d"
    by (simp only: of_char_from_weights[OF assms(1)] of_char_from_weights[OF assms(2)])
  then show ?thesis by (simp only: of_char_eq_iff)
qed

lemma versions_equal:
  assumes "versionAlphabet x" and "versionAlphabet y"
    and k: "map (\<lambda>c. the (primaryWeight c)) x = map (\<lambda>c. the (primaryWeight c)) y"
    and t: "map tertiaryWeight x = map tertiaryWeight y"
  shows "x = y"
proof -
  from k have len: "length x = length y" using map_eq_imp_length_eq by blast
  show ?thesis
  proof (rule nth_equalityI[OF len])
    fix i assume i: "i < length x"
    with len have j: "i < length y" by simp
    from assms(1) i obtain p where p: "primaryWeight (x ! i) = Some p"
      unfolding versionAlphabet_def list_all_length by auto
    from assms(2) j obtain q where q: "primaryWeight (y ! i) = Some q"
      unfolding versionAlphabet_def list_all_length by auto
    have "the (primaryWeight (x ! i)) = the (primaryWeight (y ! i))"
      using k i j by (metis nth_map)
    with p q have "q = p" by simp
    moreover have "tertiaryWeight (x ! i) = tertiaryWeight (y ! i)"
      using t i j by (metis nth_map)
    ultimately show "x ! i = y ! i" using p q weights_injective by blast
  qed
qed

text \<open>
  C2, as the claim states it, fails: the comparator of the version sort is the host's
  \<open>localeCompare\<close>. On a host with the default collation \<open>13.2\<close> compares greater than
  \<open>13.10\<close>, and sorting by version (newest first) puts \<open>13.2\<close> before \<open>13.10\<close>.
\<close>

theorem version_order_counterexample:
  "hostCollation exampleCollation \<and>
   exampleCollation ''13.2'' ''13.10'' = 1 \<and>
   sortResults exampleCollation (\<lambda>date. None) (Some ''version'')
     [firmwareWithVersion ''13.10'', firmwareWithVersion ''13.2''] =
     [firmwareWithVersion ''13.2'', firmwareWithVersion ''13.10'']"
proof (intro conjI)
  show "hostCollation exampleCollation"
    by (simp add: hostCollation_def exampleCollation_def)
  show "exampleCollation ''13.2'' ''13.10'' = 1"
    by code_simp
  show "sortResults exampleCollation (\<lambda>date. None) (Some ''version'')
     [firmwareWithVersion ''13.10'', firmwareWithVersion ''13.2''] =
     [firmwareWithVersion ''13.2'', firmwareWithVersion ''13.10'']"
    by code_simp
qed

text \<open>
  C2, amended. The comparator of the version sort (\<open>search-advanced\<close> with \<open>sortBy\<close>
  \<open>version\<close>) is the host's plain string comparison \<open>localeCompare\<close> of the two
  versions, in descending order. On a host with the default collation, and on version
  strings made of digits, letters and dots, it is a total order: its result is \<open>-1\<close>,
  \<open>0\<close> or \<open>1\<close>, swapping the arguments negates it, it is zero only for equal strings,
  and it is transitive. It is lexical, not numeric: when two such strings have a common
  prefix and then a character of the first sorts before the character of the second (dot
  before digits, digits before letters, letters in alphabetical order whatever their
  case), the first string compares less, whatever follows; in particular \<open>13.10\<close>
  compares strictly less than \<open>13.2\<close>.
\<close>

theorem version_sort_is_lexical:
  assumes "hostCollation localeCompare"
  shows
    "sortComparator localeCompare getTime ''version'' a b =
       localeCompare (fwVersion b) (fwVersion a) \<and>
     (versionAlphabet x \<and> versionAlphabet y \<longrightarrow>
        (localeCompare x y = -1 \<or> localeCompare x y = 0 \<or> localeCompare x y = 1) \<and>
        localeCompare x y = - localeCompare y x \<and>
        (localeCompare x y = 0 \<longrightarrow> x = y)) \<and>
     (versionAlphabet x \<and> versionAlphabet y \<and> versionAlphabet z \<and>
      localeCompare x y \<le> 0 \<and> localeCompare y z \<le> 0 \<longrightarrow> localeCompare x z \<le> 0) \<and>
     (versionAlphabet (p @ c # s) \<and> versionAlphabet (p @ d # t) \<and> sortsBefore c d \<longrightarrow>
        localeCompare (p @ c # s) (p @ d # t) = -1) \<and>
     localeCompare ''13.10'' ''13.2'' = -1"
proof -
  let ?k = "map (\<lambda>c. the (primaryWeight c))"
  let ?t = "map tertiaryWeight"
  have host: "localeCompare u v = twoLevel (?k u) (?t u) (?k v) (?t v)"
    if "versionAlphabet u" and "versionAlphabet v" for u v
    using assms versionCollation_of_versions[OF that] unfolding hostCollation_def by blast
  have cmp: "sortComparator localeCompare getTime ''version'' a b =
       localeCompare (fwVersion b) (fwVersion a)"
    by (simp add: sortComparator_def)
  have order: "(localeCompare x y = -1 \<or> localeCompare x y = 0 \<or> localeCompare x y = 1) \<and>
        localeCompare x y = - localeCompare y x \<and>
        (localeCompare x y = 0 \<longrightarrow> x = y)"
    if xy: "versionAlphabet x \<and> versionAlphabet y"
  proof (intro conjI impI)
    from xy have ax: "versionAlphabet x" and ay: "versionAlphabet y" by simp_all
    show "localeCompare x y = -1 \<or> localeCompare x y = 0 \<or> localeCompare x y = 1"
      unfolding host[OF ax ay] by (rule twoLevel_values)
    show "localeCompare x y = - localeCompare y x"
      unfolding host[OF ax ay] host[OF ay ax] by (rule twoLevel_flip)
    assume "localeCompare x y = 0"
    then have "?k x = ?k y \<and> ?t x = ?t y"
      unfolding host[OF ax ay] by (simp only: twoLevel_zero)
    then show "x = y" using versions_equal[OF ax ay] by blast
  qed
  have trans: "localeCompare x z \<le> 0"
    if h: "versionAlphabet x \<and> versionAlphabet y \<and> versionAlphabet z \<and>
      localeCompare x y \<le> 0 \<and> localeCompare y z \<le> 0"
  proof -
    from h have ax: "versionAlphabet x" and ay: "versionAlphabet y" and az: "versionAlphabet z"
      and xy: "localeCompare x y \<le> 0" and yz: "localeCompare y z \<le> 0" by simp_all
    from xy yz show ?thesis
      unfolding host[OF ax ay] host[OF ay az] host[OF ax az] by (rule twoLevel_trans)
  qed
  have first: "localeCompare (p @ c # s) (p @ d # t) = -1"
    if h: "versionAlphabet (p @ c # s) \<and> versionAlphabet (p @ d # t) \<and> sortsBefore c d"
  proof -
    from h have al: "versionAlphabet (p @ c # s)" and ar: "versionAlphabet (p @ d # t)"
      and b: "sortsBefore c d" by simp_all
    from b have "the (primaryWeight c) < the (primaryWeight d)"
      unfolding sortsBefore_def by (auto split: option.splits)
    then show ?thesis
      unfolding host[OF al ar] by (simp add: twoLevel_first_difference)
  qed
  have particular: "localeCompare ''13.10'' ''13.2'' = -1"
  proof -
    have "versionCollation ''13.10'' ''13.2'' = Some (-1)" by code_simp
    with assms show ?thesis unfolding hostCollation_def by blast
  qed
  show ?thesis
  proof (intro conjI)
    show "sortComparator localeCompare getTime ''version'' a b =
       localeCompare (fwVersion b) (fwVersion a)" by (rule cmp)
    show "versionAlphabet x \<and> versionAlphabet y \<longrightarrow>
        (localeCompare x y = -1 \<or> localeCompare x y = 0 \<or> localeCompare x y = 1) \<and>
        localeCompare x y = - localeCompare y x \<and>
        (localeCompare x y = 0 \<longrightarrow> x = y)"
      by (rule impI) (rule order)
    show "versionAlphabet x \<and> versionAlphabet y \<and> versionAlphabet z \<and>
      localeCompare x y \<le> 0 \<and> localeCompare y z \<le> 0 \<longrightarrow> localeCompare x z \<le> 0"
      by (rule impI) (rule trans)
    show "versionAlphabet (p @ c # s) \<and> versionAlphabet (p @ d # t) \<and> sortsBefore c d \<longrightarrow>
        localeCompare (p @ c # s) (p @ d # t) = -1"
      by (rule impI) (rule first)
    show "localeCompare ''13.10'' ''13.2'' = -1" by (rule particular)
  qed
qed

theorem version_sort_is_lexical_witness:
  "hostCollation exampleCollation \<and>
   versionAlphabet ''13.10'' \<and> versionAlphabet ''13.2'' \<and> versionAlphabet ''13.9'' \<and>
   exampleCollation ''13.10'' ''13.2'' \<le> 0 \<and> exampleCollation ''13.2'' ''13.9'' \<le> 0 \<and>
   exampleCollation ''13.10'' ''13.9'' \<le> 0 \<and>
   exampleCollation ''13.2'' ''13.2'' = 0 \<and>
   versionAlphabet (''13.'' @ CHR ''1'' # ''0'') \<and> versionAlphabet (''13.'' @ CHR ''2'' # '''') \<and>
   sortsBefore CHR ''1'' CHR ''2'' \<and>
   exampleCollation (''13.'' @ CHR ''1'' # ''0'') (''13.'' @ CHR ''2'' # '''') = -1"
proof -
  have host: "hostCollation exampleCollation"
    by (simp add: hostCollation_def exampleCollation_def)
  have alpha: "versionAlphabet ''13.10''" "versionAlphabet ''13.2''" "versionAlphabet ''13.9''"
    "versionAlphabet (''13.'' @ CHR ''1'' # ''0'')" "versionAlphabet (''13.'' @ CHR ''2'' # '''')"
    by code_simp+
  have le: "exampleCollation ''13.10'' ''13.2'' \<le> 0" "exampleCollation ''13.2'' ''13.9'' \<le> 0"
    by code_simp+
  have same: "exampleCollation ''13.2'' ''13.2'' = 0"
    by code_simp
  have before: "sortsBefore CHR ''1'' CHR ''2''"
    by code_simp
  note t = version_sort_is_lexical[OF host]
  from t[where x = "''13.10''" and y = "''13.2''" and z = "''13.9''"] alpha(1,2,3) le
  have a: "exampleCollation ''13.10'' ''13.9'' \<le> 0" by blast
  from t[where c = "CHR ''1''" and d = "CHR ''2''" and p = "''13.''" and s = "''0''" and t = "''''"]
    alpha(4,5) before
  have b: "exampleCollation (''13.'' @ CHR ''1'' # ''0'') (''13.'' @ CHR ''2'' # '''') = -1"
    by blast
  show ?thesis
    by (intro conjI) (rule host alpha le a same before b)+
qed

end
